theory Spec2Isabelle
  imports Complex_Main
begin

section \<open>Python values, errors and the primitives the module calls\<close>

text \<open>
  The module \<open>rate_limiter.py\<close> defines one class, \<open>RateLimiter\<close>. Its methods run under
  a reentrant lock from the first statement to the last, so each method is modelled as one
  atomic step on the object's state.

  Python floats are modelled as exact reals (ints embed into them); rounding is outside the
  model. The clock readings of \<open>time.time()\<close> and the draws of \<open>random.random()\<close> are
  parameters of the operations, so that every theorem holds for every clock, including one
  that runs backward, and for every draw.
\<close>

datatype py_error =
  KeyError | TypeError | ValueError | OverflowError | IndexError | ZeroDivisionError

text \<open>The values a configuration entry holds: a number (int or float), a bool or a str.\<close>

datatype pyval = PNum real | PBool bool | PStr string

text \<open>A value used in arithmetic or in a comparison with a number: a bool counts as 0 or 1,
  a str raises \<open>TypeError\<close>.\<close>

fun num_of :: "pyval \<Rightarrow> py_error + real" where
  "num_of (PNum r) = Inr r"
| "num_of (PBool b) = Inr (if b then 1 else 0)"
| "num_of (PStr s) = Inl TypeError"

text \<open>Python's truth value of an object, as \<open>if x\<close> and \<open>not x\<close> test it.\<close>

fun truthy :: "pyval \<Rightarrow> bool" where
  "truthy (PNum r) = (r \<noteq> 0)"
| "truthy (PBool b) = b"
| "truthy (PStr s) = (s \<noteq> [])"

text \<open>Sequencing of steps that may raise: the first exception ends the method.\<close>

definition bind_result :: "py_error + 'a \<Rightarrow> ('a \<Rightarrow> py_error + 'b) \<Rightarrow> py_error + 'b" where
  "bind_result m f = (case m of Inl e \<Rightarrow> Inl e | Inr x \<Rightarrow> f x)"

text \<open>Subscription \<open>xs[i]\<close> of a Python list. Positions \<open>0 .. len - 1\<close> are read directly,
  positions \<open>-len .. -1\<close> are read from the right end, and every other position raises
  \<open>IndexError\<close>.\<close>

definition py_index :: "'a list \<Rightarrow> int \<Rightarrow> py_error + 'a" where
  "py_index xs i =
     (if 0 \<le> i \<and> i < int (length xs) then Inr (xs ! nat i)
      else if i < 0 \<and> - int (length xs) \<le> i then Inr (xs ! nat (int (length xs) + i))
      else Inl IndexError)"

text \<open>\<open>random.uniform(a, b)\<close> is \<open>a + (b - a) * random()\<close>; \<open>u\<close> is the draw of \<open>random()\<close>.\<close>

definition uniform :: "real \<Rightarrow> real \<Rightarrow> real \<Rightarrow> real" where
  "uniform a b u = a + (b - a) * u"

text \<open>\<open>deque(maxlen=n).append(x)\<close>: append on the right, and drop the leftmost element
  when the length then exceeds \<open>maxlen\<close>.\<close>

definition deque_append :: "nat \<Rightarrow> 'a \<Rightarrow> 'a list \<Rightarrow> 'a list" where
  "deque_append maxlen x xs =
     (let ys = xs @ [x] in if length ys > maxlen then tl ys else ys)"

text \<open>\<open>min(xs)\<close> on a non-empty sequence (the caller tests emptiness first).\<close>

fun py_min :: "real list \<Rightarrow> real" where
  "py_min [] = 0"
| "py_min (x # xs) = fold min xs x"

section \<open>The state of a RateLimiter\<close>

type_synonym config = "string \<rightharpoonup> pyval"

text \<open>The fields of the object as \<open>__init__\<close> creates them. \<open>slept\<close> is not a field of the
  class: it logs the argument of every \<open>time.sleep\<close> call, in order, and is how blocking
  is observed.\<close>

record rate_limiter =
  config :: config
  last_request_time :: real
  request_times :: "real list"
  error_count :: int
  current_backoff :: pyval
  user_agents :: "string list"
  current_user_agent_idx :: int
  proxies :: "string list"
  current_proxy_idx :: int
  slept :: "real list"

definition default_config :: config where
  "default_config = map_of
     [(''min_delay'', PNum 1),
      (''max_delay'', PNum 3),
      (''rpm_limit'', PNum 20),
      (''browser'', PStr ''chrome''),
      (''headless'', PBool False),
      (''use_proxies'', PBool False),
      (''initial_backoff'', PNum 5),
      (''max_backoff'', PNum 300),
      (''backoff_factor'', PNum 2)]"

definition default_user_agents :: "string list" where
  "default_user_agents =
     [''Mozilla/5.0 (Windows NT 10.0; Win64; x64) AppleWebKit/537.36 (KHTML, like Gecko) Chrome/91.0.4472.124 Safari/537.36'',
      ''Mozilla/5.0 (Macintosh; Intel Mac OS X 10_15_7) AppleWebKit/537.36 (KHTML, like Gecko) Chrome/91.0.4472.124 Safari/537.36'',
      ''Mozilla/5.0 (Windows NT 10.0; Win64; x64; rv:89.0) Gecko/20100101 Firefox/89.0'',
      ''Mozilla/5.0 (Macintosh; Intel Mac OS X 10_15_7) AppleWebKit/605.1.15 (KHTML, like Gecko) Version/14.1.1 Safari/605.1.15'',
      ''Mozilla/5.0 (Windows NT 10.0; Win64; x64) AppleWebKit/537.36 (KHTML, like Gecko) Chrome/91.0.4472.124 Safari/537.36 Edg/91.0.864.59'',
      ''Mozilla/5.0 (X11; Linux x86_64) AppleWebKit/537.36 (KHTML, like Gecko) Chrome/91.0.4472.124 Safari/537.36'',
      ''Mozilla/5.0 (iPhone; CPU iPhone OS 14_6 like Mac OS X) AppleWebKit/605.1.15 (KHTML, like Gecko) CriOS/91.0.4472.80 Mobile/15E148 Safari/604.1'',
      ''Mozilla/5.0 (iPad; CPU OS 14_6 like Mac OS X) AppleWebKit/605.1.15 (KHTML, like Gecko) CriOS/91.0.4472.80 Mobile/15E148 Safari/604.1'',
      ''Mozilla/5.0 (Linux; Android 11; SM-G991B) AppleWebKit/537.36 (KHTML, like Gecko) Chrome/91.0.4472.120 Mobile Safari/537.36'',
      ''Mozilla/5.0 (X11; Ubuntu; Linux x86_64; rv:89.0) Gecko/20100101 Firefox/89.0'']"

text \<open>\<open>RateLimiter.__init__\<close>.\<close>

definition init_limiter :: rate_limiter where
  "init_limiter =
     \<lparr>config = default_config,
      last_request_time = 0,
      request_times = [],
      error_count = 0,
      current_backoff = PNum 5,
      user_agents = default_user_agents,
      current_user_agent_idx = 0,
      proxies = [],
      current_proxy_idx = 0,
      slept = []\<rparr>"

text \<open>\<open>self.config[key]\<close>, and the same read used as a number.\<close>

definition cfg_get :: "config \<Rightarrow> string \<Rightarrow> py_error + pyval" where
  "cfg_get c k = (case c k of None \<Rightarrow> Inl KeyError | Some v \<Rightarrow> Inr v)"

definition cfg_num :: "config \<Rightarrow> string \<Rightarrow> py_error + real" where
  "cfg_num c k = bind_result (cfg_get c k) num_of"

text \<open>\<open>time.sleep(d)\<close> of CPython 3.6 and later (the module uses f-strings). The length is
  first converted to a signed 64-bit count of nanoseconds, and \<open>OverflowError\<close> is raised
  when it does not fit, whatever its sign; then \<open>ValueError\<close> is raised on a negative
  length; otherwise the call blocks for \<open>d\<close> seconds. \<open>max_sleep\<close> is the longest length
  that fits.\<close>

definition max_sleep :: real where
  "max_sleep = 2 ^ 63 / 10 ^ 9"

definition time_sleep :: "real \<Rightarrow> rate_limiter \<Rightarrow> py_error + rate_limiter" where
  "time_sleep d s =
     (if d < - max_sleep \<or> max_sleep < d then Inl OverflowError
      else if d < 0 then Inl ValueError
      else Inr (s\<lparr>slept := slept s @ [d]\<rparr>))"

section \<open>configure\<close>

text \<open>The loop body of \<open>configure\<close>: a key that the config dict holds is overwritten, any
  other key is skipped.\<close>

definition configure_key :: "string \<times> pyval \<Rightarrow> config \<Rightarrow> config" where
  "configure_key kv c = (if c (fst kv) \<noteq> None then c(fst kv \<mapsto> snd kv) else c)"

text \<open>\<open>configure(**kwargs)\<close>; \<open>kwargs\<close> is the list of the items of the keyword dict, in
  order.\<close>

definition configure :: "(string \<times> pyval) list \<Rightarrow> rate_limiter \<Rightarrow> py_error + rate_limiter" where
  "configure kwargs s =
     (let c = fold configure_key kwargs (config s)
      in bind_result (cfg_get c ''initial_backoff'')
           (\<lambda>b. Inr (s\<lparr>config := c, current_backoff := b, error_count := 0\<rparr>)))"

section \<open>wait\_if\_needed\<close>

text \<open>\<open>sum(1 for t in self.request_times if t > minute_ago)\<close>.\<close>

definition recent_requests :: "real \<Rightarrow> real list \<Rightarrow> nat" where
  "recent_requests minute_ago ts = length (filter (\<lambda>t. t > minute_ago) ts)"

text \<open>The wait that the RPM check computes (lines 101 to 104): \<open>None\<close> when the count is
  under the limit, the value of \<open>wait_time\<close> otherwise.\<close>

definition rpm_wait_time :: "real \<Rightarrow> rate_limiter \<Rightarrow> py_error + real option" where
  "rpm_wait_time current_time s =
     (let minute_ago = current_time - 60;
          recent = recent_requests minute_ago (request_times s)
      in bind_result (cfg_num (config s) ''rpm_limit'')
           (\<lambda>rpm_limit.
              if real recent \<ge> rpm_limit then
                (let oldest_in_window =
                       (if request_times s \<noteq> [] then py_min (request_times s) else minute_ago);
                     wait_time = 61 - (current_time - oldest_in_window)
                 in Inr (Some wait_time))
              else Inr None))"

text \<open>The first wait (lines 105 to 107): sleep for \<open>wait_time\<close> when it was computed and is
  positive.\<close>

definition rpm_step :: "real \<Rightarrow> rate_limiter \<Rightarrow> py_error + rate_limiter" where
  "rpm_step current_time s =
     bind_result (rpm_wait_time current_time s)
       (\<lambda>w. case w of
               None \<Rightarrow> Inr s
             | Some wait_time \<Rightarrow> if wait_time > 0 then time_sleep wait_time s else Inr s)"

text \<open>A wait that a step has computed, or none: \<open>time.sleep\<close> is called with it.\<close>

definition sleep_for :: "real option \<Rightarrow> rate_limiter \<Rightarrow> py_error + rate_limiter" where
  "sleep_for w s = (case w of None \<Rightarrow> Inr s | Some d \<Rightarrow> time_sleep d s)"

text \<open>The arguments of the \<open>time.sleep\<close> calls that a computed wait leads to.\<close>

definition opt_list :: "real option \<Rightarrow> real list" where
  "opt_list w = (case w of None \<Rightarrow> [] | Some d \<Rightarrow> [d])"

text \<open>The second wait (lines 110 to 113); \<open>time_since_last\<close> is the value computed at
  line 94, before the first wait.\<close>

definition min_delay_wait_time :: "real \<Rightarrow> rate_limiter \<Rightarrow> py_error + real option" where
  "min_delay_wait_time time_since_last s =
     bind_result (cfg_num (config s) ''min_delay'')
       (\<lambda>min_delay.
          if time_since_last < min_delay then Inr (Some (min_delay - time_since_last))
          else Inr None)"

definition min_delay_step :: "real \<Rightarrow> rate_limiter \<Rightarrow> py_error + rate_limiter" where
  "min_delay_step time_since_last s =
     bind_result (min_delay_wait_time time_since_last s) (\<lambda>w. sleep_for w s)"

text \<open>The third wait (lines 116 to 122); \<open>r\<close> is the draw of \<open>random.random()\<close> and \<open>u\<close>
  the draw inside \<open>random.uniform\<close>.\<close>

definition random_delay :: "real \<Rightarrow> real \<Rightarrow> rate_limiter \<Rightarrow> py_error + real option" where
  "random_delay r u s =
     (if r < 0.2 then
        bind_result (cfg_num (config s) ''min_delay'')
          (\<lambda>min_delay. bind_result (cfg_num (config s) ''max_delay'')
             (\<lambda>max_delay. Inr (Some (uniform min_delay max_delay u))))
      else Inr None)"

definition noise_step :: "real \<Rightarrow> real \<Rightarrow> rate_limiter \<Rightarrow> py_error + rate_limiter" where
  "noise_step r u s = bind_result (random_delay r u s) (\<lambda>w. sleep_for w s)"

text \<open>\<open>wait_if_needed()\<close>: \<open>t0\<close> is the clock reading at line 91 and \<open>t1\<close> the one at
  line 125.\<close>

definition wait_if_needed ::
  "real \<Rightarrow> real \<Rightarrow> real \<Rightarrow> real \<Rightarrow> rate_limiter \<Rightarrow> py_error + rate_limiter" where
  "wait_if_needed t0 r u t1 s =
     (let current_time = t0;
          time_since_last = current_time - last_request_time s
      in bind_result (rpm_step current_time s)
           (\<lambda>s1. bind_result (min_delay_step time_since_last s1)
              (\<lambda>s2. bind_result (noise_step r u s2)
                 (\<lambda>s3. Inr (s3\<lparr>last_request_time := t1\<rparr>)))))"

section \<open>record\_request and get\_request\_stats\<close>

definition record_request :: "real \<Rightarrow> rate_limiter \<Rightarrow> rate_limiter" where
  "record_request now s = s\<lparr>request_times := deque_append 60 now (request_times s)\<rparr>"

record request_stats =
  requests_last_minute :: nat
  rpm_limit :: pyval
  stat_error_count :: int
  stat_current_backoff :: pyval
  stat_last_request_time :: real
  time_since_last :: "real option"

definition get_request_stats :: "real \<Rightarrow> rate_limiter \<Rightarrow> py_error + request_stats" where
  "get_request_stats current_time s =
     (let minute_ago = current_time - 60;
          recent = recent_requests minute_ago (request_times s)
      in bind_result (cfg_get (config s) ''rpm_limit'')
           (\<lambda>lim. Inr
              \<lparr>requests_last_minute = recent,
               rpm_limit = lim,
               stat_error_count = error_count s,
               stat_current_backoff = current_backoff s,
               stat_last_request_time = last_request_time s,
               time_since_last =
                 (if last_request_time s \<noteq> 0 then Some (current_time - last_request_time s)
                  else None)\<rparr>))"

section \<open>Rotation, backoff and the accessors\<close>

text \<open>\<open>_rotate_user_agent\<close>: the modulus is the pool size, so an empty pool raises.\<close>

definition rotate_user_agent :: "rate_limiter \<Rightarrow> py_error + rate_limiter" where
  "rotate_user_agent s =
     (if user_agents s = [] then Inl ZeroDivisionError
      else Inr (s\<lparr>current_user_agent_idx :=
                    (current_user_agent_idx s + 1) mod int (length (user_agents s))\<rparr>))"

definition rotate_proxy :: "rate_limiter \<Rightarrow> rate_limiter" where
  "rotate_proxy s =
     (if proxies s = [] then s
      else s\<lparr>current_proxy_idx := (current_proxy_idx s + 1) mod int (length (proxies s))\<rparr>)"

text \<open>\<open>handle_rate_limit_error()\<close>; \<open>u\<close> is the draw inside \<open>random.uniform(-0.2, 0.2)\<close>.
  The result is the returned backoff and the new state.\<close>

definition handle_rate_limit_error ::
  "real \<Rightarrow> rate_limiter \<Rightarrow> py_error + (real \<times> rate_limiter)" where
  "handle_rate_limit_error u s =
     (let s1 = s\<lparr>error_count := error_count s + 1\<rparr>
      in bind_result (num_of (current_backoff s1))
           (\<lambda>cb. bind_result (cfg_num (config s1) ''max_backoff'')
              (\<lambda>max_backoff.
                 let backoff = min (cb * (1.0 + uniform (- 0.2) 0.2 u)) max_backoff
                 in bind_result (cfg_num (config s1) ''backoff_factor'')
                      (\<lambda>backoff_factor.
                         let s2 = s1\<lparr>current_backoff := PNum (min (cb * backoff_factor) max_backoff)\<rparr>
                         in bind_result (rotate_user_agent s2)
                              (\<lambda>s3. bind_result (cfg_get (config s3) ''use_proxies'')
                                 (\<lambda>use_proxies.
                                    let s4 = (if truthy use_proxies then rotate_proxy s3 else s3)
                                    in Inr (backoff, s4)))))))"

definition get_backoff_time :: "rate_limiter \<Rightarrow> pyval" where
  "get_backoff_time s = current_backoff s"

definition reset_error_count :: "rate_limiter \<Rightarrow> py_error + rate_limiter" where
  "reset_error_count s =
     (if error_count s > 0 then
        bind_result (cfg_get (config s) ''initial_backoff'')
          (\<lambda>b. Inr (s\<lparr>error_count := 0, current_backoff := b\<rparr>))
      else Inr s)"

definition get_proxy :: "rate_limiter \<Rightarrow> py_error + string option" where
  "get_proxy s =
     bind_result (cfg_get (config s) ''use_proxies'')
       (\<lambda>use_proxies.
          if \<not> truthy use_proxies \<or> proxies s = [] then Inr None
          else bind_result (py_index (proxies s) (current_proxy_idx s)) (\<lambda>p. Inr (Some p)))"

definition get_user_agent :: "rate_limiter \<Rightarrow> py_error + string" where
  "get_user_agent s = py_index (user_agents s) (current_user_agent_idx s)"


text \<open>The state that \<open>handle_rate_limit_error\<close> leaves when nothing raises, given the
  numbers it read: the current backoff, \<open>max_backoff\<close>, \<open>backoff_factor\<close>, and the value
  of \<open>use_proxies\<close>.\<close>

definition handle_result :: "real \<Rightarrow> real \<Rightarrow> real \<Rightarrow> pyval \<Rightarrow> rate_limiter \<Rightarrow> rate_limiter" where
  "handle_result cb mb bf up s =
     (if truthy up then rotate_proxy else id)
       (s\<lparr>error_count := error_count s + 1,
          current_backoff := PNum (min (cb * bf) mb),
          current_user_agent_idx :=
            (current_user_agent_idx s + 1) mod int (length (user_agents s))\<rparr>)"

section \<open>Repeated calls\<close>

text \<open>\<open>record_request()\<close> called once for each clock reading of the list, in order.\<close>

definition record_requests :: "real list \<Rightarrow> rate_limiter \<Rightarrow> rate_limiter" where
  "record_requests ts s = fold record_request ts s"

text \<open>\<open>handle_rate_limit_error()\<close> called once for each draw of the list, with nothing in
  between; the result is the list of the states after each call.\<close>

fun handle_sequence :: "real list \<Rightarrow> rate_limiter \<Rightarrow> py_error + rate_limiter list" where
  "handle_sequence [] s = Inr []"
| "handle_sequence (u # us) s =
     bind_result (handle_rate_limit_error u s)
       (\<lambda>bs. bind_result (handle_sequence us (snd bs)) (\<lambda>ss. Inr (snd bs # ss)))"

section \<open>Predicates on states\<close>

text \<open>The rotation indices are positions of their pools.\<close>

definition index_invariant :: "rate_limiter \<Rightarrow> bool" where
  "index_invariant s \<longleftrightarrow>
     0 \<le> current_user_agent_idx s \<and> current_user_agent_idx s < int (length (user_agents s)) \<and>
     (proxies s \<noteq> [] \<longrightarrow>
        0 \<le> current_proxy_idx s \<and> current_proxy_idx s < int (length (proxies s)))"

section \<open>The specification's wording of three steps, for comparison\<close>

text \<open>The RPM wait as the specification words it: 61 minus the age of the oldest entry
  among those that lie within the trailing 60 seconds.\<close>

definition spec_rpm_wait_time :: "real \<Rightarrow> rate_limiter \<Rightarrow> py_error + real option" where
  "spec_rpm_wait_time current_time s =
     (let minute_ago = current_time - 60;
          in_window = filter (\<lambda>t. t > minute_ago) (request_times s)
      in bind_result (cfg_num (config s) ''rpm_limit'')
           (\<lambda>rpm_limit.
              if real (length in_window) \<ge> rpm_limit then
                (let oldest_in_window = (if in_window \<noteq> [] then py_min in_window else minute_ago)
                 in Inr (Some (61 - (current_time - oldest_in_window))))
              else Inr None))"

text \<open>\<open>wait_if_needed\<close> as the specification words its second step: the elapsed time
  since \<open>last_request_time\<close> is read again after the RPM wait, at clock reading
  \<open>t_mid\<close>.\<close>

definition spec_wait_if_needed ::
  "real \<Rightarrow> real \<Rightarrow> real \<Rightarrow> real \<Rightarrow> real \<Rightarrow> rate_limiter \<Rightarrow> py_error + rate_limiter" where
  "spec_wait_if_needed t0 t_mid r u t1 s =
     bind_result (rpm_step t0 s)
       (\<lambda>s1. bind_result (min_delay_step (t_mid - last_request_time s1) s1)
          (\<lambda>s2. bind_result (noise_step r u s2)
             (\<lambda>s3. Inr (s3\<lparr>last_request_time := t1\<rparr>))))"

text \<open>\<open>configure\<close> as the specification words it: the recognized keys are the seven
  tunables it lists.\<close>

definition spec_tunables :: "string list" where
  "spec_tunables =
     [''min_delay'', ''max_delay'', ''rpm_limit'', ''initial_backoff'', ''max_backoff'',
      ''backoff_factor'', ''use_proxies'']"

definition spec_configure_key :: "string \<times> pyval \<Rightarrow> config \<Rightarrow> config" where
  "spec_configure_key kv c = (if fst kv \<in> set spec_tunables then c(fst kv \<mapsto> snd kv) else c)"

definition spec_configure :: "(string \<times> pyval) list \<Rightarrow> rate_limiter \<Rightarrow> py_error + rate_limiter" where
  "spec_configure kwargs s =
     (let c = fold spec_configure_key kwargs (config s)
      in bind_result (cfg_get c ''initial_backoff'')
           (\<lambda>b. Inr (s\<lparr>config := c, current_backoff := b, error_count := 0\<rparr>)))"

text \<open>The third wait as the specification words the treatment of a wait that is not
  positive: no sleep at all.\<close>

definition spec_noise_step :: "real \<Rightarrow> real \<Rightarrow> rate_limiter \<Rightarrow> py_error + rate_limiter" where
  "spec_noise_step r u s =
     bind_result (random_delay r u s)
       (\<lambda>w. case w of
               None \<Rightarrow> Inr s
             | Some d \<Rightarrow> if d > 0 then time_sleep d s else Inr s)"

section \<open>Three concrete states\<close>

text \<open>\<open>rpm_limit\<close> is 2; requests were recorded at clock readings 900, 990 and 995 and the
  last paced request was at 995.\<close>

definition stale_log_state :: rate_limiter where
  "stale_log_state =
     init_limiter\<lparr>config := (config init_limiter)(''rpm_limit'' \<mapsto> PNum 2),
                  request_times := [900, 990, 995],
                  last_request_time := 995\<rparr>"

text \<open>The state after \<open>configure(min_delay=0, max_delay=0)\<close> on a new object.\<close>

definition zero_delay_state :: rate_limiter where
  "zero_delay_state =
     init_limiter\<lparr>config := (config init_limiter)(''min_delay'' \<mapsto> PNum 0,
                                                   ''max_delay'' \<mapsto> PNum 0)\<rparr>"

text \<open>\<open>rpm_limit\<close> is 2; requests were recorded at clock readings 995 and 996 and the last
  paced request was at 996.\<close>

definition paced_state :: rate_limiter where
  "paced_state =
     init_limiter\<lparr>config := (config init_limiter)(''rpm_limit'' \<mapsto> PNum 2),
                  request_times := [995, 996],
                  last_request_time := 996\<rparr>"


section \<open>Basic facts about the primitives and the three waits\<close>

lemma bind_result_simps [simp]:
  "bind_result (Inr x) f = f x"
  "bind_result (Inl e) f = Inl e"
  by (simp_all add: bind_result_def)

lemma bind_result_eq_Inr:
  "bind_result m f = Inr y \<longleftrightarrow> (\<exists>x. m = Inr x \<and> f x = Inr y)"
  by (cases m) simp_all

lemma max_sleep_pos: "0 < max_sleep"
  by (simp add: max_sleep_def)

lemma time_sleep_eq_Inr:
  "time_sleep d s = Inr s' \<longleftrightarrow>
     0 \<le> d \<and> d \<le> max_sleep \<and> s' = s\<lparr>slept := slept s @ [d]\<rparr>"
  using max_sleep_pos by (auto simp: time_sleep_def)

lemma time_sleep_nonneg:
  "0 \<le> d \<Longrightarrow>
   time_sleep d s =
     (if d \<le> max_sleep then Inr (s\<lparr>slept := slept s @ [d]\<rparr>) else Inl OverflowError)"
  using max_sleep_pos by (auto simp: time_sleep_def)

lemma opt_list_simps [simp]: "opt_list None = []" "opt_list (Some d) = [d]"
  by (simp_all add: opt_list_def)

lemma sleep_for_eq_Inr:
  "sleep_for w s = Inr s' \<longleftrightarrow>
     (\<forall>d \<in> set (opt_list w). 0 \<le> d \<and> d \<le> max_sleep) \<and>
     s' = s\<lparr>slept := slept s @ opt_list w\<rparr>"
  by (cases w) (auto simp: sleep_for_def time_sleep_eq_Inr)

lemma sleep_for_nonneg:
  "\<forall>d \<in> set (opt_list w). 0 \<le> d \<Longrightarrow>
   sleep_for w s =
     (if \<forall>d \<in> set (opt_list w). d \<le> max_sleep
      then Inr (s\<lparr>slept := slept s @ opt_list w\<rparr>) else Inl OverflowError)"
  by (cases w) (simp_all add: sleep_for_def time_sleep_nonneg)

lemma wait_times_slept_update [simp]:
  "rpm_wait_time t (s\<lparr>slept := x\<rparr>) = rpm_wait_time t s"
  "min_delay_wait_time d (s\<lparr>slept := x\<rparr>) = min_delay_wait_time d s"
  "random_delay r u (s\<lparr>slept := x\<rparr>) = random_delay r u s"
  by (simp_all add: rpm_wait_time_def min_delay_wait_time_def random_delay_def Let_def cong: if_cong)

lemma rpm_step_sleep_for:
  "rpm_wait_time t s = Inr w \<Longrightarrow>
   rpm_step t s =
     sleep_for (case w of None \<Rightarrow> None | Some d \<Rightarrow> if 0 < d then Some d else None) s"
  by (cases w) (simp_all add: rpm_step_def sleep_for_def)

lemma rpm_step_eq_Inr:
  "rpm_step t s = Inr s' \<longleftrightarrow>
     (\<exists>w. rpm_wait_time t s = Inr w \<and>
          (\<forall>d \<in> set (filter (\<lambda>d. d > 0) (opt_list w)). d \<le> max_sleep) \<and>
          s' = s\<lparr>slept := slept s @ filter (\<lambda>d. d > 0) (opt_list w)\<rparr>)"
proof (cases "rpm_wait_time t s")
  case (Inl e)
  then show ?thesis by (simp add: rpm_step_def)
next
  case (Inr w)
  then show ?thesis
    by (cases w) (auto simp: rpm_step_def time_sleep_eq_Inr)
qed

lemma min_delay_step_eq_Inr:
  "min_delay_step d s = Inr s' \<longleftrightarrow>
     (\<exists>w. min_delay_wait_time d s = Inr w \<and>
          (\<forall>x \<in> set (opt_list w). 0 \<le> x \<and> x \<le> max_sleep) \<and>
          s' = s\<lparr>slept := slept s @ opt_list w\<rparr>)"
  by (simp add: min_delay_step_def bind_result_eq_Inr sleep_for_eq_Inr)

lemma noise_step_eq_Inr:
  "noise_step r u s = Inr s' \<longleftrightarrow>
     (\<exists>w. random_delay r u s = Inr w \<and>
          (\<forall>x \<in> set (opt_list w). 0 \<le> x \<and> x \<le> max_sleep) \<and>
          s' = s\<lparr>slept := slept s @ opt_list w\<rparr>)"
  by (simp add: noise_step_def bind_result_eq_Inr sleep_for_eq_Inr)

lemma wait_if_needed_eq_Inr:
  "wait_if_needed t0 r u t1 s = Inr s' \<longleftrightarrow>
     (\<exists>w1 w2 w3.
           rpm_wait_time t0 s = Inr w1 \<and>
           min_delay_wait_time (t0 - last_request_time s) s = Inr w2 \<and>
           random_delay r u s = Inr w3 \<and>
           (\<forall>d \<in> set (filter (\<lambda>d. d > 0) (opt_list w1)). d \<le> max_sleep) \<and>
           (\<forall>d \<in> set (opt_list w2). 0 \<le> d \<and> d \<le> max_sleep) \<and>
           (\<forall>d \<in> set (opt_list w3). 0 \<le> d \<and> d \<le> max_sleep) \<and>
           s' = s\<lparr>slept := slept s @ filter (\<lambda>d. d > 0) (opt_list w1) @ opt_list w2 @ opt_list w3,
                  last_request_time := t1\<rparr>)"
  unfolding wait_if_needed_def Let_def bind_result_eq_Inr rpm_step_eq_Inr min_delay_step_eq_Inr
    noise_step_eq_Inr
  apply (rule iffI)
   apply (elim exE conjE)
   apply simp
  apply (elim exE conjE)
  apply simp
  done

text \<open>The outcome of \<open>wait_if_needed\<close> when the three waits were computed and none that is
  slept is negative: the call returns, or a wait is too long for \<open>time.sleep\<close>.\<close>

lemma wait_if_needed_outcome:
  assumes w1: "rpm_wait_time t0 s = Inr w1"
    and w2: "min_delay_wait_time (t0 - last_request_time s) s = Inr w2"
    and w3: "random_delay r u s = Inr w3"
    and p2: "\<forall>d \<in> set (opt_list w2). 0 \<le> d"
    and p3: "\<forall>d \<in> set (opt_list w3). 0 \<le> d"
  shows "wait_if_needed t0 r u t1 s =
           (if \<forall>d \<in> set (filter (\<lambda>d. 0 < d) (opt_list w1) @ opt_list w2 @ opt_list w3).
                 d \<le> max_sleep
            then Inr (s\<lparr>slept := slept s @ filter (\<lambda>d. 0 < d) (opt_list w1)
                                    @ opt_list w2 @ opt_list w3,
                        last_request_time := t1\<rparr>)
            else Inl OverflowError)"
proof -
  let ?v1 = "case w1 of None \<Rightarrow> None | Some d \<Rightarrow> if 0 < d then Some d else None"
  have l1: "opt_list ?v1 = filter (\<lambda>d. 0 < d) (opt_list w1)"
    by (cases w1) simp_all
  have p1: "\<forall>d \<in> set (opt_list ?v1). 0 \<le> d"
    unfolding l1 by auto
  have a: "rpm_step t0 s =
             (if \<forall>d \<in> set (filter (\<lambda>d. 0 < d) (opt_list w1)). d \<le> max_sleep
              then Inr (s\<lparr>slept := slept s @ filter (\<lambda>d. 0 < d) (opt_list w1)\<rparr>)
              else Inl OverflowError)"
    unfolding rpm_step_sleep_for [OF w1] sleep_for_nonneg [OF p1] l1 ..
  have b: "min_delay_step (t0 - last_request_time s) (s\<lparr>slept := x\<rparr>) =
             (if \<forall>d \<in> set (opt_list w2). d \<le> max_sleep
              then Inr (s\<lparr>slept := x @ opt_list w2\<rparr>) else Inl OverflowError)" for x
    by (simp add: min_delay_step_def w2 sleep_for_nonneg [OF p2])
  have c: "noise_step r u (s\<lparr>slept := x\<rparr>) =
             (if \<forall>d \<in> set (opt_list w3). d \<le> max_sleep
              then Inr (s\<lparr>slept := x @ opt_list w3\<rparr>) else Inl OverflowError)" for x
    by (simp add: noise_step_def w3 sleep_for_nonneg [OF p3])
  show ?thesis
    unfolding wait_if_needed_def Let_def a
    by (simp add: b c ball_Un)
qed

lemmas cfg_defs = cfg_num_def cfg_get_def init_limiter_def default_config_def

lemma min_delay_wait_time_num:
  "cfg_num (config s) ''min_delay'' = Inr md \<Longrightarrow>
   min_delay_wait_time d s = Inr (if d < md then Some (md - d) else None)"
  by (simp add: min_delay_wait_time_def)

lemma rpm_wait_time_num:
  "cfg_num (config s) ''rpm_limit'' = Inr rpm \<Longrightarrow>
   rpm_wait_time t s =
     Inr (if rpm \<le> real (recent_requests (t - 60) (request_times s))
          then Some (61 - (t - (if request_times s \<noteq> [] then py_min (request_times s) else t - 60)))
          else None)"
  by (simp add: rpm_wait_time_def Let_def)

lemma random_delay_num:
  "cfg_num (config s) ''min_delay'' = Inr md \<Longrightarrow> cfg_num (config s) ''max_delay'' = Inr xd \<Longrightarrow>
   random_delay r u s = Inr (if r < 0.2 then Some (uniform md xd u) else None)"
  by (simp add: random_delay_def)

lemma uniform_bounds:
  assumes "a \<le> b" "0 \<le> u" "u \<le> 1"
  shows "a \<le> uniform a b u" and "uniform a b u \<le> b"
proof -
  have "0 \<le> (b - a) * u" using assms by simp
  then show "a \<le> uniform a b u" by (simp add: uniform_def)
  have "(b - a) * u \<le> (b - a) * 1"
    using assms by (intro mult_left_mono) simp_all
  then show "uniform a b u \<le> b" by (simp add: uniform_def)
qed

section \<open>Facts about handle\_rate\_limit\_error\<close>

lemma handle_rate_limit_error_value:
  assumes "num_of (current_backoff s) = Inr cb"
    and "cfg_num (config s) ''max_backoff'' = Inr mb"
    and "cfg_num (config s) ''backoff_factor'' = Inr bf"
    and "user_agents s \<noteq> []"
    and "config s ''use_proxies'' = Some up"
  shows "handle_rate_limit_error u s =
           Inr (min (cb * (1 + uniform (- 0.2) 0.2 u)) mb, handle_result cb mb bf up s)"
  using assms
  by (simp add: handle_rate_limit_error_def Let_def rotate_user_agent_def cfg_get_def
      handle_result_def)

lemma handle_rate_limit_error_Inr:
  assumes "handle_rate_limit_error u s = Inr bs"
  shows "\<exists>cb mb bf up.
           num_of (current_backoff s) = Inr cb \<and>
           cfg_num (config s) ''max_backoff'' = Inr mb \<and>
           cfg_num (config s) ''backoff_factor'' = Inr bf \<and>
           user_agents s \<noteq> [] \<and>
           config s ''use_proxies'' = Some up"
proof -
  obtain cb where cb: "num_of (current_backoff s) = Inr cb"
    using assms by (cases "num_of (current_backoff s)") (simp_all add: handle_rate_limit_error_def)
  obtain mb where mb: "cfg_num (config s) ''max_backoff'' = Inr mb"
    using assms cb
    by (cases "cfg_num (config s) ''max_backoff''") (simp_all add: handle_rate_limit_error_def)
  obtain bf where bf: "cfg_num (config s) ''backoff_factor'' = Inr bf"
    using assms cb mb
    by (cases "cfg_num (config s) ''backoff_factor''")
      (simp_all add: handle_rate_limit_error_def Let_def)
  have ua: "user_agents s \<noteq> []"
    using assms cb mb bf
    by (cases "user_agents s = []")
      (simp_all add: handle_rate_limit_error_def Let_def rotate_user_agent_def)
  obtain up where up: "config s ''use_proxies'' = Some up"
    using assms cb mb bf ua
    by (cases "config s ''use_proxies''")
      (simp_all add: handle_rate_limit_error_def Let_def rotate_user_agent_def cfg_get_def)
  show ?thesis using cb mb bf ua up by blast
qed

lemma handle_result_frame [simp]:
  "last_request_time (handle_result cb mb bf up s) = last_request_time s"
  "slept (handle_result cb mb bf up s) = slept s"
  "config (handle_result cb mb bf up s) = config s"
  "request_times (handle_result cb mb bf up s) = request_times s"
  "user_agents (handle_result cb mb bf up s) = user_agents s"
  "proxies (handle_result cb mb bf up s) = proxies s"
  "error_count (handle_result cb mb bf up s) = error_count s + 1"
  "current_backoff (handle_result cb mb bf up s) = PNum (min (cb * bf) mb)"
  "current_user_agent_idx (handle_result cb mb bf up s) =
     (current_user_agent_idx s + 1) mod int (length (user_agents s))"
  by (simp_all add: handle_result_def rotate_proxy_def)

section \<open>Facts about repeated calls and the pools\<close>

lemma handle_sequence_Cons:
  assumes "num_of (current_backoff s) = Inr cb"
    and "cfg_num (config s) ''max_backoff'' = Inr mb"
    and "cfg_num (config s) ''backoff_factor'' = Inr bf"
    and "user_agents s \<noteq> []"
    and "config s ''use_proxies'' = Some up"
  shows "handle_sequence (u # us) s =
           bind_result (handle_sequence us (handle_result cb mb bf up s))
             (\<lambda>ss. Inr (handle_result cb mb bf up s # ss))"
  by (simp add: handle_rate_limit_error_value [OF assms])

lemma handle_sequence_states:
  assumes "num_of (current_backoff s) = Inr cb"
    and "cfg_num (config s) ''max_backoff'' = Inr mb"
    and "cfg_num (config s) ''backoff_factor'' = Inr bf"
    and "user_agents s \<noteq> []"
    and "config s ''use_proxies'' = Some up"
  shows "\<exists>ss. handle_sequence us s = Inr ss \<and> length ss = length us \<and>
           (\<forall>i < length ss.
              current_user_agent_idx (ss ! i) =
                (current_user_agent_idx s + int i + 1) mod int (length (user_agents s)))"
  using assms
proof (induction us arbitrary: s cb)
  case Nil
  then show ?case by simp
next
  case (Cons u us)
  let ?s' = "handle_result cb mb bf up s"
  have step: "handle_sequence (u # us) s =
           bind_result (handle_sequence us ?s') (\<lambda>ss. Inr (?s' # ss))"
    by (rule handle_sequence_Cons [OF Cons.prems])
  have "num_of (current_backoff ?s') = Inr (min (cb * bf) mb)"
    by simp
  from Cons.IH [OF this] Cons.prems
  obtain ss where ss: "handle_sequence us ?s' = Inr ss" "length ss = length us"
    and idx: "\<forall>i < length ss. current_user_agent_idx (ss ! i) =
                (current_user_agent_idx ?s' + int i + 1) mod int (length (user_agents s))"
    by auto
  have "current_user_agent_idx ((?s' # ss) ! i) =
          (current_user_agent_idx s + int i + 1) mod int (length (user_agents s))"
    if "i < length (?s' # ss)" for i
  proof (cases i)
    case 0
    then show ?thesis by simp
  next
    case (Suc j)
    with that idx have "current_user_agent_idx (ss ! j) =
        ((current_user_agent_idx s + 1) mod int (length (user_agents s)) + (int j + 1))
          mod int (length (user_agents s))"
      by (simp add: add.assoc)
    also have "\<dots> = (current_user_agent_idx s + 1 + (int j + 1)) mod int (length (user_agents s))"
      by (rule mod_add_left_eq)
    finally show ?thesis using Suc by (simp add: add.commute add.left_commute)
  qed
  then show ?case
    using step ss by simp
qed

lemma distinct_default_user_agents: "distinct default_user_agents"
  by (simp add: default_user_agents_def)

lemma py_index_in_range:
  "0 \<le> i \<Longrightarrow> i < int (length xs) \<Longrightarrow> py_index xs i = Inr (xs ! nat i)"
  by (simp add: py_index_def)

lemma init_handle_facts:
  "num_of (current_backoff init_limiter) = Inr 5"
  "cfg_num (config init_limiter) ''max_backoff'' = Inr 300"
  "cfg_num (config init_limiter) ''backoff_factor'' = Inr 2"
  "cfg_num (config init_limiter) ''initial_backoff'' = Inr 5"
  "config init_limiter ''use_proxies'' = Some (PBool False)"
  "current_user_agent_idx init_limiter = 0"
  "length (user_agents init_limiter) = 10"
  "current_backoff init_limiter = PNum 5"
  by (simp_all add: cfg_defs default_user_agents_def)

section \<open>Facts about configure, the request log and the index invariant\<close>

lemma configure_key_None [simp]: "configure_key kv c k = None \<longleftrightarrow> c k = None"
  by (simp add: configure_key_def)

lemma fold_configure_key_None [simp]:
  "fold configure_key kwargs c k = None \<longleftrightarrow> c k = None"
  by (induction kwargs arbitrary: c) simp_all

lemma fold_configure_key_value:
  "distinct (map fst kwargs) \<Longrightarrow>
   fold configure_key kwargs c k =
     (if c k \<noteq> None then (case map_of kwargs k of Some v \<Rightarrow> Some v | None \<Rightarrow> c k) else None)"
proof (induction kwargs arbitrary: c)
  case Nil
  then show ?case by simp
next
  case (Cons kv kwargs)
  obtain k' v' where kv: "kv = (k', v')" by (cases kv)
  from Cons.prems kv have d: "distinct (map fst kwargs)" and nin: "k' \<notin> fst ` set kwargs"
    by simp_all
  have none: "map_of kwargs k' = None"
    using nin by (simp add: map_of_eq_None_iff)
  note IH = Cons.IH [OF d, of "configure_key kv c"]
  show ?case
  proof (cases "k = k'")
    case True
    have a: "configure_key kv c k = (if c k \<noteq> None then Some v' else None)"
      using True kv by (auto simp: configure_key_def)
    have b: "map_of (kv # kwargs) k = Some v'"
      using True kv by simp
    have "fold configure_key (kv # kwargs) c k = fold configure_key kwargs (configure_key kv c) k"
      by simp
    also have "\<dots> = (if c k \<noteq> None then Some v' else None)"
      unfolding IH using none True a by simp
    finally show ?thesis unfolding b by simp
  next
    case False
    have a: "configure_key kv c k = c k"
      using False kv by (simp add: configure_key_def)
    have b: "map_of (kv # kwargs) k = map_of kwargs k"
      using False kv by simp
    have "fold configure_key (kv # kwargs) c k = fold configure_key kwargs (configure_key kv c) k"
      by simp
    also have "\<dots> = (if c k \<noteq> None
        then (case map_of kwargs k of Some v \<Rightarrow> Some v | None \<Rightarrow> c k) else None)"
      unfolding IH a by simp
    finally show ?thesis unfolding b .
  qed
qed

lemma deque_append_drop:
  "length xs \<le> n \<Longrightarrow> deque_append n x xs = drop (length (xs @ [x]) - n) (xs @ [x])"
  by (cases xs) (auto simp: deque_append_def Let_def Suc_diff_le)

lemma deque_append_full:
  "length xs = n \<Longrightarrow> 0 < n \<Longrightarrow> deque_append n x xs = tl xs @ [x]"
  by (cases xs) (simp_all add: deque_append_def)

lemma drop_keep_last:
  "drop (length (drop (length zs - n) zs @ ts) - n) (drop (length zs - n) zs @ ts)
     = drop (length (zs @ ts) - n) (zs @ ts)"
proof (cases "length zs \<le> n")
  case True
  then show ?thesis by simp
next
  case False
  then have "length zs - (length zs - n) = n" by simp
  then have "length (drop (length zs - n) zs @ ts) - n = length ts" by simp
  moreover have "length (zs @ ts) - n = length ts + (length zs - n)"
    using False by simp
  ultimately show ?thesis
    by (simp add: drop_drop [symmetric] del: drop_drop)
qed

lemma record_requests_log:
  "length (request_times s) \<le> 60 \<Longrightarrow>
   request_times (record_requests ts s)
     = drop (length (request_times s @ ts) - 60) (request_times s @ ts)"
proof (induction ts arbitrary: s)
  case Nil
  then show ?case by (simp add: record_requests_def)
next
  case (Cons t ts)
  let ?zs = "request_times s @ [t]"
  let ?s1 = "record_request t s"
  have log1: "request_times ?s1 = drop (length ?zs - 60) ?zs"
    using Cons.prems by (simp add: record_request_def deque_append_drop)
  then have "length (request_times ?s1) \<le> 60" by simp
  from Cons.IH [OF this]
  have "request_times (record_requests ts ?s1)
          = drop (length (drop (length ?zs - 60) ?zs @ ts) - 60) (drop (length ?zs - 60) ?zs @ ts)"
    unfolding log1 .
  also have "\<dots> = drop (length (?zs @ ts) - 60) (?zs @ ts)"
    by (rule drop_keep_last)
  finally show ?case by (simp add: record_requests_def)
qed

lemma record_requests_config [simp]: "config (record_requests ts s) = config s"
  by (induction ts arbitrary: s) (simp_all add: record_requests_def record_request_def)

lemma index_invariant_frame:
  assumes "index_invariant s"
    and "user_agents s' = user_agents s" "proxies s' = proxies s"
    and "current_user_agent_idx s' = current_user_agent_idx s"
    and "current_proxy_idx s' = current_proxy_idx s"
  shows "index_invariant s'"
  using assms by (simp add: index_invariant_def)

lemma index_invariant_rotate_proxy:
  assumes "index_invariant s"
  shows "index_invariant (rotate_proxy s)"
proof (cases "proxies s = []")
  case True
  then show ?thesis using assms by (simp add: rotate_proxy_def)
next
  case False
  then have "0 < int (length (proxies s))" by simp
  then have "0 \<le> (current_proxy_idx s + 1) mod int (length (proxies s))"
    "(current_proxy_idx s + 1) mod int (length (proxies s)) < int (length (proxies s))"
    by (rule pos_mod_sign, rule pos_mod_bound)
  then show ?thesis
    using assms False by (simp add: rotate_proxy_def index_invariant_def)
qed

lemma index_invariant_rotate_user_agent:
  assumes "index_invariant s" and "rotate_user_agent s = Inr s'"
  shows "index_invariant s'"
proof -
  from assms(2) have ne: "user_agents s \<noteq> []"
    and s': "s' = s\<lparr>current_user_agent_idx :=
                      (current_user_agent_idx s + 1) mod int (length (user_agents s))\<rparr>"
    by (auto simp: rotate_user_agent_def split: if_splits)
  from ne have "0 < int (length (user_agents s))" by simp
  then have "0 \<le> (current_user_agent_idx s + 1) mod int (length (user_agents s))"
    "(current_user_agent_idx s + 1) mod int (length (user_agents s)) < int (length (user_agents s))"
    by (rule pos_mod_sign, rule pos_mod_bound)
  then show ?thesis
    using assms(1) by (simp add: s' index_invariant_def)
qed

lemma index_invariant_handle_result:
  assumes "index_invariant s"
  shows "index_invariant (handle_result cb mb bf up s)"
proof -
  let ?s1 = "s\<lparr>error_count := error_count s + 1,
          current_backoff := PNum (min (cb * bf) mb),
          current_user_agent_idx :=
            (current_user_agent_idx s + 1) mod int (length (user_agents s))\<rparr>"
  from assms have "0 < int (length (user_agents s))"
    unfolding index_invariant_def by linarith
  then have "0 \<le> (current_user_agent_idx s + 1) mod int (length (user_agents s))"
    "(current_user_agent_idx s + 1) mod int (length (user_agents s)) < int (length (user_agents s))"
    by (rule pos_mod_sign, rule pos_mod_bound)
  then have "index_invariant ?s1"
    using assms by (simp add: index_invariant_def)
  then show ?thesis
    by (simp add: handle_result_def index_invariant_rotate_proxy)
qed

text \<open>After \<open>__init__\<close>, after \<open>configure\<close> and after a \<open>reset_error_count\<close> that resets, the
  stored backoff is the configured \<open>initial_backoff\<close>.\<close>

lemma backoff_reset_to_initial:
  "cfg_num (config init_limiter) ''initial_backoff'' = num_of (current_backoff init_limiter)"
  "configure kwargs s = Inr s' \<Longrightarrow>
     cfg_num (config s') ''initial_backoff'' = num_of (current_backoff s')"
  "reset_error_count s = Inr s' \<Longrightarrow> 0 < error_count s \<Longrightarrow>
     cfg_num (config s') ''initial_backoff'' = num_of (current_backoff s')"
  by (auto simp: cfg_defs configure_def reset_error_count_def Let_def bind_result_eq_Inr
      split: option.splits)

section \<open>The RPM wait\<close>

text \<open>
  Claim C1. When at least \<open>rpm_limit\<close> entries of the request log lie within the trailing
  60 seconds, \<open>wait_if_needed\<close> should wait 61 minus the age of the oldest entry within that
  window, and so block for a positive time. The code names the value \<open>oldest_in_window\<close>
  but takes \<open>min(self.request_times)\<close> over the whole log, and the log drops entries by
  count only, never by age. In \<open>stale_log_state\<close>, at clock reading 1000, two entries (990
  and 995) lie within the window and the limit is 2, so the wait is due; the entry of 900
  is still stored, the code computes 61 - (1000 - 900) = -39 where the window's oldest entry
  gives 61 - (1000 - 990) = 51, and the call returns without any sleep.
\<close>

theorem rpm_wait_uses_stale_entry:
  "recent_requests (1000 - 60) (request_times stale_log_state) = 2 \<and>
   cfg_num (config stale_log_state) ''rpm_limit'' = Inr 2 \<and>
   rpm_wait_time 1000 stale_log_state = Inr (Some (- 39)) \<and>
   spec_rpm_wait_time 1000 stale_log_state = Inr (Some 51) \<and>
   map_sum id slept (wait_if_needed 1000 (1/2) 0 1000 stale_log_state) = Inr []"
  by (simp add: stale_log_state_def cfg_defs recent_requests_def rpm_wait_time_def
      spec_rpm_wait_time_def wait_if_needed_def rpm_step_def min_delay_step_def
      min_delay_wait_time_def noise_step_def random_delay_def sleep_for_def)

section \<open>The minimum delay\<close>

text \<open>
  Claim C2 as stated: after the RPM wait the elapsed time since \<open>last_request_time\<close> is read
  again, and the second wait is the rest of \<open>min_delay\<close> after that. The code reads the
  elapsed time once, at line 94, before the RPM wait. In \<open>paced_state\<close>, entered at clock
  reading 996.5, the RPM wait is 59.5 seconds; afterwards 60 seconds have passed since the
  last paced request, yet the code sleeps another 0.5 seconds, the rest of \<open>min_delay\<close> as
  it was at entry. A second read at clock reading 1056 would give no second sleep.
\<close>

theorem min_delay_recheck_counterexample:
  "map_sum id slept (wait_if_needed (1993/2) (1/2) 0 (2113/2) paced_state) = Inr [119/2, 1/2] \<and>
   map_sum id slept (spec_wait_if_needed (1993/2) 1056 (1/2) 0 (2113/2) paced_state) = Inr [119/2]"
  by (simp add: paced_state_def cfg_defs recent_requests_def rpm_wait_time_def
      spec_wait_if_needed_def wait_if_needed_def rpm_step_def min_delay_step_def
      min_delay_wait_time_def noise_step_def random_delay_def sleep_for_def time_sleep_def
      max_sleep_def)

text \<open>
  Claim C2, amended. In every call that returns, the second wait is decided by the elapsed
  time at entry, \<open>t0 - last_request_time\<close>: when that is less than \<open>min_delay\<close> the method
  sleeps for the difference, after the RPM wait and whatever its length, and otherwise the
  step does not sleep. Hence, on a clock that advances by at least the time slept, the new
  \<open>last_request_time\<close> is at least \<open>min_delay\<close> after the previous one.
\<close>

theorem min_delay_floor_from_entry:
  assumes ret: "wait_if_needed t0 r u t1 s = Inr s'"
    and md: "cfg_num (config s) ''min_delay'' = Inr md"
  shows "(\<exists>w1 w3. rpm_wait_time t0 s = Inr w1 \<and> random_delay r u s = Inr w3 \<and>
            slept s' = slept s @ filter (\<lambda>d. 0 < d) (opt_list w1)
              @ (if t0 - last_request_time s < md then [md - (t0 - last_request_time s)] else [])
              @ opt_list w3) \<and>
         (t0 + sum_list (drop (length (slept s)) (slept s')) \<le> t1 \<longrightarrow>
            last_request_time s + md \<le> last_request_time s')"
proof -
  let ?tsl = "t0 - last_request_time s"
  from ret obtain w1 w2 w3 where
    w1: "rpm_wait_time t0 s = Inr w1" and
    w2: "min_delay_wait_time ?tsl s = Inr w2" and
    w3: "random_delay r u s = Inr w3" and
    p3: "\<forall>d \<in> set (opt_list w3). 0 \<le> d" and
    s': "s' = s\<lparr>slept := slept s @ filter (\<lambda>d. 0 < d) (opt_list w1) @ opt_list w2 @ opt_list w3,
               last_request_time := t1\<rparr>"
    unfolding wait_if_needed_eq_Inr by blast
  from w2 md have w2': "opt_list w2 = (if ?tsl < md then [md - ?tsl] else [])"
    by (auto simp: min_delay_wait_time_num)
  have new: "drop (length (slept s)) (slept s')
               = filter (\<lambda>d. 0 < d) (opt_list w1) @ opt_list w2 @ opt_list w3"
    by (simp add: s')
  have a: "0 \<le> sum_list (filter (\<lambda>d. 0 < d) (opt_list w1))"
    by (rule sum_list_nonneg) simp
  have c: "0 \<le> sum_list (opt_list w3)"
    using p3 by (intro sum_list_nonneg) simp
  have floor: "last_request_time s + md \<le> last_request_time s'"
    if "t0 + sum_list (drop (length (slept s)) (slept s')) \<le> t1"
  proof -
    have "t0 + sum_list (opt_list w2) \<le> t1"
      using that a c unfolding new by simp
    moreover have "last_request_time s + md \<le> t0 + sum_list (opt_list w2)"
      unfolding w2' by simp
    ultimately show ?thesis by (simp add: s')
  qed
  show ?thesis
    using w1 w3 floor by (simp add: s' w2')
qed

theorem min_delay_floor_from_entry_witness:
  "wait_if_needed (1993/2) (1/2) 0 (2113/2) paced_state
     = Inr (paced_state\<lparr>slept := [119/2, 1/2], last_request_time := 2113/2\<rparr>) \<and>
   cfg_num (config paced_state) ''min_delay'' = Inr 1 \<and>
   last_request_time paced_state + 1
     \<le> last_request_time (paced_state\<lparr>slept := [119/2, 1/2], last_request_time := 2113/2\<rparr>)"
proof -
  have ret: "wait_if_needed (1993/2) (1/2) 0 (2113/2) paced_state
     = Inr (paced_state\<lparr>slept := [119/2, 1/2], last_request_time := 2113/2\<rparr>)"
    by (simp add: paced_state_def cfg_defs recent_requests_def rpm_wait_time_def
        wait_if_needed_def rpm_step_def min_delay_step_def
        min_delay_wait_time_def noise_step_def random_delay_def sleep_for_def time_sleep_def
      max_sleep_def)
  have md: "cfg_num (config paced_state) ''min_delay'' = Inr 1"
    by (simp add: paced_state_def cfg_defs)
  have sl: "slept paced_state = []"
    by (simp add: paced_state_def init_limiter_def)
  from min_delay_floor_from_entry [OF ret md] ret md sl show ?thesis
    by simp
qed

section \<open>No negative sleep\<close>

text \<open>
  Claim C8 as stated: every computed wait that is not positive results in no sleep at all.
  The first two waits are guarded (lines 105 and 110), the third is not: lines 116 to 122
  pass \<open>random.uniform(min_delay, max_delay)\<close> to \<open>time.sleep\<close> whatever its value. In
  \<open>zero_delay_state\<close>, where \<open>min_delay = max_delay = 0\<close>, a draw below 0.2 computes a
  random delay of 0, which is not positive, and \<open>time.sleep(0)\<close> is called; a third step that
  skips a wait that is not positive would not call it.
\<close>

theorem zero_noise_delay_counterexample:
  "random_delay (1/10) (1/2) zero_delay_state = Inr (Some 0) \<and>
   map_sum id slept (wait_if_needed 1000 (1/10) (1/2) 1000 zero_delay_state) = Inr [0] \<and>
   map_sum id slept (noise_step (1/10) (1/2) zero_delay_state) = Inr [0] \<and>
   map_sum id slept (spec_noise_step (1/10) (1/2) zero_delay_state) = Inr []"
  by (simp add: zero_delay_state_def cfg_defs recent_requests_def rpm_wait_time_def
      wait_if_needed_def rpm_step_def min_delay_step_def min_delay_wait_time_def
      noise_step_def spec_noise_step_def random_delay_def sleep_for_def time_sleep_def
      max_sleep_def uniform_def)

text \<open>
  Claim C8, amended. With a configuration whose \<open>rpm_limit\<close>, \<open>min_delay\<close> and \<open>max_delay\<close>
  are numbers and \<open>0 \<le> min_delay \<le> max_delay\<close>, and for every clock reading, request log
  and \<open>last_request_time\<close> (so also for a clock that ran backward), no step of
  \<open>wait_if_needed\<close> passes a negative length to \<open>time.sleep\<close>, and the call never raises
  \<open>ValueError\<close>. The RPM wait is slept only when it is positive, the min-delay wait is
  computed only when it is positive, and the random delay is passed to \<open>time.sleep\<close>
  unguarded but is never negative: a delay of exactly 0 is a sleep of length 0. The lengths
  passed are exactly the positive RPM wait, the min-delay wait and the random delay, in this
  order; the call returns with these in the sleep log, unless one of them is longer than
  \<open>time.sleep\<close> accepts, in which case it raises \<open>OverflowError\<close>.
\<close>

theorem wait_never_sleeps_negative:
  assumes rpm: "cfg_num (config s) ''rpm_limit'' = Inr rpm"
    and md: "cfg_num (config s) ''min_delay'' = Inr md"
    and xd: "cfg_num (config s) ''max_delay'' = Inr xd"
    and valid: "0 \<le> md" "md \<le> xd"
    and draw: "0 \<le> u" "u \<le> 1"
  shows "\<exists>w1 w2 w3.
           rpm_wait_time t0 s = Inr w1 \<and>
           min_delay_wait_time (t0 - last_request_time s) s = Inr w2 \<and>
           random_delay r u s = Inr w3 \<and>
           (\<forall>d \<in> set (opt_list w2). 0 < d) \<and>
           (\<forall>d \<in> set (opt_list w3). 0 \<le> d) \<and>
           (\<forall>d \<in> set (filter (\<lambda>d. 0 < d) (opt_list w1) @ opt_list w2 @ opt_list w3). 0 \<le> d) \<and>
           wait_if_needed t0 r u t1 s =
             (if \<forall>d \<in> set (filter (\<lambda>d. 0 < d) (opt_list w1) @ opt_list w2 @ opt_list w3).
                   d \<le> max_sleep
              then Inr (s\<lparr>slept := slept s @ filter (\<lambda>d. 0 < d) (opt_list w1)
                                      @ opt_list w2 @ opt_list w3,
                          last_request_time := t1\<rparr>)
              else Inl OverflowError) \<and>
           wait_if_needed t0 r u t1 s \<noteq> Inl ValueError"
proof -
  let ?tsl = "t0 - last_request_time s"
  obtain w1 where w1: "rpm_wait_time t0 s = Inr w1"
    using rpm_wait_time_num [OF rpm] by simp
  define w2 where "w2 = (if ?tsl < md then Some (md - ?tsl) else None)"
  define w3 where "w3 = (if r < 0.2 then Some (uniform md xd u) else None)"
  have w2: "min_delay_wait_time ?tsl s = Inr w2"
    unfolding w2_def by (rule min_delay_wait_time_num [OF md])
  have w3: "random_delay r u s = Inr w3"
    unfolding w3_def by (rule random_delay_num [OF md xd])
  have p2: "\<forall>d \<in> set (opt_list w2). 0 < d"
    by (simp add: w2_def)
  have "0 \<le> uniform md xd u"
    using uniform_bounds(1) [OF valid(2) draw] valid(1) by simp
  then have p3: "\<forall>d \<in> set (opt_list w3). 0 \<le> d"
    by (simp add: w3_def)
  have p2': "\<forall>d \<in> set (opt_list w2). 0 \<le> d"
    using p2 by (simp add: less_imp_le)
  have all: "\<forall>d \<in> set (filter (\<lambda>d. 0 < d) (opt_list w1) @ opt_list w2 @ opt_list w3). 0 \<le> d"
    using p2' p3 by auto
  note out = wait_if_needed_outcome [OF w1 w2 w3 p2' p3, where ?t1.0 = t1]
  have nv: "wait_if_needed t0 r u t1 s \<noteq> Inl ValueError"
    unfolding out by simp
  show ?thesis
    using w1 w2 w3 p2 p3 all out nv by blast
qed

theorem wait_never_sleeps_negative_witness:
  "cfg_num (config zero_delay_state) ''rpm_limit'' = Inr 20 \<and>
   cfg_num (config zero_delay_state) ''min_delay'' = Inr 0 \<and>
   cfg_num (config zero_delay_state) ''max_delay'' = Inr 0 \<and>
   wait_if_needed 1000 (1/10) (1/2) 1000 zero_delay_state
     = Inr (zero_delay_state\<lparr>slept := [0], last_request_time := 1000\<rparr>) \<and>
   wait_if_needed 1000 (1/10) (1/2) 1000 zero_delay_state \<noteq> Inl ValueError"
proof -
  have rpm: "cfg_num (config zero_delay_state) ''rpm_limit'' = Inr 20"
    and md: "cfg_num (config zero_delay_state) ''min_delay'' = Inr 0"
    and xd: "cfg_num (config zero_delay_state) ''max_delay'' = Inr 0"
    by (simp_all add: zero_delay_state_def cfg_defs)
  have w1: "rpm_wait_time 1000 zero_delay_state = Inr None"
    using rpm_wait_time_num [OF rpm, of 1000]
    by (simp add: zero_delay_state_def init_limiter_def recent_requests_def)
  have w2: "min_delay_wait_time (1000 - last_request_time zero_delay_state) zero_delay_state
              = Inr None"
    using min_delay_wait_time_num [OF md, of "1000 - last_request_time zero_delay_state"]
    by (simp add: zero_delay_state_def init_limiter_def)
  have w3: "random_delay (1/10) (1/2) zero_delay_state = Inr (Some 0)"
    by (simp add: random_delay_num [OF md xd] uniform_def)
  have sl: "slept zero_delay_state = []"
    by (simp add: zero_delay_state_def init_limiter_def)
  from wait_never_sleeps_negative [OF rpm md xd, where u = "1/2" and ?t0.0 = 1000
      and r = "1/10" and ?t1.0 = 1000]
  have "wait_if_needed 1000 (1/10) (1/2) 1000 zero_delay_state
     = Inr (zero_delay_state\<lparr>slept := [0], last_request_time := 1000\<rparr>) \<and>
   wait_if_needed 1000 (1/10) (1/2) 1000 zero_delay_state \<noteq> Inl ValueError"
    by (simp add: w1 w2 w3 sl max_sleep_def)
  with rpm md xd show ?thesis by simp
qed

section \<open>The initial last\_request\_time\<close>

text \<open>
  Claim C9. \<open>__init__\<close> sets \<open>last_request_time\<close> to 0, and only \<open>wait_if_needed\<close> writes
  the field: \<open>record_request\<close>, \<open>configure\<close>, \<open>reset_error_count\<close> and
  \<open>handle_rate_limit_error\<close> keep it. While it is 0, the elapsed time that the min-delay
  step compares is the clock reading itself, so for a clock reading of at least \<open>min_delay\<close>
  (epoch seconds are far above any delay) the step computes no wait and does not sleep:
  the sleeps of a call of \<open>wait_if_needed\<close> are then those of the RPM wait and of the random
  delay only.
  \<open>get_request_stats\<close> returns whenever the config dict holds \<open>rpm_limit\<close>, and the record
  it returns has \<open>time_since_last = None\<close> exactly when \<open>last_request_time\<close> is 0; otherwise
  \<open>time_since_last\<close> is the clock reading minus \<open>last_request_time\<close>.
\<close>

theorem first_wait_skips_min_delay:
  "last_request_time init_limiter = 0 \<and>
   last_request_time (record_request now s) = last_request_time s \<and>
   (\<forall>s'. configure kwargs s = Inr s' \<longrightarrow> last_request_time s' = last_request_time s) \<and>
   (\<forall>s'. reset_error_count s = Inr s' \<longrightarrow> last_request_time s' = last_request_time s) \<and>
   (\<forall>b s'. handle_rate_limit_error u s = Inr (b, s') \<longrightarrow> last_request_time s' = last_request_time s) \<and>
   (last_request_time s = 0 \<and> cfg_num (config s) ''min_delay'' = Inr md \<and> md \<le> t0 \<longrightarrow>
      min_delay_wait_time (t0 - last_request_time s) s = Inr None \<and>
      min_delay_step (t0 - last_request_time s) s = Inr s \<and>
      (\<forall>s'. wait_if_needed t0 r u t1 s = Inr s' \<longrightarrow>
         (\<exists>w1 w3. rpm_wait_time t0 s = Inr w1 \<and> random_delay r u s = Inr w3 \<and>
            slept s' = slept s @ filter (\<lambda>d. 0 < d) (opt_list w1) @ opt_list w3))) \<and>
   (\<forall>v. config s ''rpm_limit'' = Some v \<longrightarrow>
      (\<exists>st. get_request_stats t0 s = Inr st \<and>
            (time_since_last st = None \<longleftrightarrow> last_request_time s = 0) \<and>
            time_since_last st =
              (if last_request_time s \<noteq> 0 then Some (t0 - last_request_time s) else None))) \<and>
   (\<forall>st. get_request_stats t0 s = Inr st \<longrightarrow>
      (time_since_last st = None \<longleftrightarrow> last_request_time s = 0))"
proof -
  have 1: "last_request_time init_limiter = 0"
    by (simp add: init_limiter_def)
  have 2: "last_request_time (record_request now s) = last_request_time s"
    by (simp add: record_request_def)
  have 3: "\<forall>s'. configure kwargs s = Inr s' \<longrightarrow> last_request_time s' = last_request_time s"
    by (auto simp: configure_def Let_def bind_result_eq_Inr)
  have 4: "\<forall>s'. reset_error_count s = Inr s' \<longrightarrow> last_request_time s' = last_request_time s"
    by (auto simp: reset_error_count_def bind_result_eq_Inr split: if_splits)
  have 5: "\<forall>b s'. handle_rate_limit_error u s = Inr (b, s') \<longrightarrow> last_request_time s' = last_request_time s"
  proof (intro allI impI)
    fix b s' assume h: "handle_rate_limit_error u s = Inr (b, s')"
    from handle_rate_limit_error_Inr [OF h] obtain cb mb bf up where
      "num_of (current_backoff s) = Inr cb" "cfg_num (config s) ''max_backoff'' = Inr mb"
      "cfg_num (config s) ''backoff_factor'' = Inr bf" "user_agents s \<noteq> []"
      "config s ''use_proxies'' = Some up" by blast
    from handle_rate_limit_error_value [OF this, of u] h
    show "last_request_time s' = last_request_time s" by auto
  qed
  have 6: "min_delay_wait_time (t0 - last_request_time s) s = Inr None \<and>
      min_delay_step (t0 - last_request_time s) s = Inr s \<and>
      (\<forall>s'. wait_if_needed t0 r u t1 s = Inr s' \<longrightarrow>
         (\<exists>w1 w3. rpm_wait_time t0 s = Inr w1 \<and> random_delay r u s = Inr w3 \<and>
            slept s' = slept s @ filter (\<lambda>d. 0 < d) (opt_list w1) @ opt_list w3))"
    if h: "last_request_time s = 0" "cfg_num (config s) ''min_delay'' = Inr md" "md \<le> t0"
  proof -
    have none: "min_delay_wait_time (t0 - last_request_time s) s = Inr None"
      using h by (simp add: min_delay_wait_time_num)
    have step: "min_delay_step (t0 - last_request_time s) s = Inr s"
      using none by (simp add: min_delay_step_def sleep_for_def)
    have "\<exists>w1 w3. rpm_wait_time t0 s = Inr w1 \<and> random_delay r u s = Inr w3 \<and>
            slept s' = slept s @ filter (\<lambda>d. 0 < d) (opt_list w1) @ opt_list w3"
      if "wait_if_needed t0 r u t1 s = Inr s'" for s'
      using that none unfolding wait_if_needed_eq_Inr by auto
    then show ?thesis using none step by blast
  qed
  have 7: "\<forall>st. get_request_stats t0 s = Inr st \<longrightarrow>
      (time_since_last st = None \<longleftrightarrow> last_request_time s = 0)"
    by (auto simp: get_request_stats_def Let_def bind_result_eq_Inr)
  have 8: "\<forall>v. config s ''rpm_limit'' = Some v \<longrightarrow>
      (\<exists>st. get_request_stats t0 s = Inr st \<and>
            (time_since_last st = None \<longleftrightarrow> last_request_time s = 0) \<and>
            time_since_last st =
              (if last_request_time s \<noteq> 0 then Some (t0 - last_request_time s) else None))"
    by (simp add: get_request_stats_def Let_def cfg_get_def)
  show ?thesis
    using 1 2 3 4 5 6 7 8 by blast
qed

theorem first_wait_skips_min_delay_witness:
  "last_request_time init_limiter = 0 \<and>
   cfg_num (config init_limiter) ''min_delay'' = Inr 1 \<and>
   (1::real) \<le> 1700000000 \<and>
   min_delay_step (1700000000 - last_request_time init_limiter) init_limiter = Inr init_limiter \<and>
   configure [] init_limiter = Inr init_limiter \<and>
   last_request_time (record_request 1700000000 init_limiter) = 0 \<and>
   config init_limiter ''rpm_limit'' = Some (PNum 20) \<and>
   map_sum id time_since_last (get_request_stats 1700000000 init_limiter) = Inr None \<and>
   config paced_state ''rpm_limit'' = Some (PNum 2) \<and>
   map_sum id time_since_last (get_request_stats 1000 paced_state) = Inr (Some 4)"
proof -
  have md: "cfg_num (config init_limiter) ''min_delay'' = Inr 1"
    by (simp add: cfg_defs)
  have cf: "configure [] init_limiter = Inr init_limiter"
    by (simp add: configure_def cfg_defs)
  have c0: "config init_limiter ''rpm_limit'' = Some (PNum 20)"
    by (simp add: cfg_defs)
  have c1: "config paced_state ''rpm_limit'' = Some (PNum 2)"
    by (simp add: paced_state_def)
  have l0: "last_request_time init_limiter = 0"
    by (simp add: init_limiter_def)
  have l1: "last_request_time paced_state = 996"
    by (simp add: paced_state_def)
  note t0 = first_wait_skips_min_delay [where s = init_limiter and md = 1
      and ?t0.0 = 1700000000 and now = 1700000000 and kwargs = "[]"]
  note t1 = first_wait_skips_min_delay [where s = paced_state and ?t0.0 = 1000]
  from t0 c0 obtain st0 where
    st0: "get_request_stats 1700000000 init_limiter = Inr st0"
      "time_since_last st0 = (if last_request_time init_limiter \<noteq> 0
         then Some (1700000000 - last_request_time init_limiter) else None)"
    by blast
  from t1 c1 obtain st1 where
    st1: "get_request_stats 1000 paced_state = Inr st1"
      "time_since_last st1 = (if last_request_time paced_state \<noteq> 0
         then Some (1000 - last_request_time paced_state) else None)"
    by blast
  have s0: "map_sum id time_since_last (get_request_stats 1700000000 init_limiter) = Inr None"
    using st0 l0 by simp
  have s1: "map_sum id time_since_last (get_request_stats 1000 paced_state) = Inr (Some 4)"
    using st1 l1 by simp
  have rest: "last_request_time init_limiter = 0 \<and>
     min_delay_step (1700000000 - last_request_time init_limiter) init_limiter = Inr init_limiter \<and>
     last_request_time (record_request 1700000000 init_limiter) = 0"
    using t0 md by simp
  have le: "(1::real) \<le> 1700000000" by simp
  show ?thesis using rest md cf c0 c1 s0 s1 le by blast
qed

section \<open>The backoff that handle\_rate\_limit\_error returns\<close>

text \<open>
  Claim C3. A call of \<open>handle_rate_limit_error\<close> on a state whose current backoff,
  \<open>max_backoff\<close> and \<open>backoff_factor\<close> are numbers returns
  \<open>min(current_backoff * f, max_backoff)\<close>, where \<open>current_backoff\<close> is the value stored
  before the call and \<open>f = 1 + uniform(-0.2, 0.2)\<close> lies in \<open>[0.8, 1.2]\<close>; it adds exactly 1
  to \<open>error_count\<close>, calls \<open>time.sleep\<close> not at all (the sleep log is unchanged), and stores
  \<open>min(current_backoff * backoff_factor, max_backoff)\<close>, the same value for every draw.
\<close>

theorem handle_returns_jittered_backoff:
  assumes cb: "num_of (current_backoff s) = Inr cb"
    and mb: "cfg_num (config s) ''max_backoff'' = Inr mb"
    and bf: "cfg_num (config s) ''backoff_factor'' = Inr bf"
    and ua: "user_agents s \<noteq> []"
    and up: "config s ''use_proxies'' = Some up"
    and draw: "0 \<le> u" "u \<le> 1"
  shows "(\<exists>s'. handle_rate_limit_error u s
                  = Inr (min (cb * (1 + uniform (- 0.2) 0.2 u)) mb, s') \<and>
               error_count s' = error_count s + 1 \<and>
               slept s' = slept s \<and>
               current_backoff s' = PNum (min (cb * bf) mb)) \<and>
         0.8 \<le> 1 + uniform (- 0.2) 0.2 u \<and> 1 + uniform (- 0.2) 0.2 u \<le> 1.2 \<and>
         min (cb * (1 + uniform (- 0.2) 0.2 u)) mb \<le> mb \<and>
         (\<forall>u'. map_sum id (\<lambda>r. current_backoff (snd r)) (handle_rate_limit_error u' s)
                 = Inr (PNum (min (cb * bf) mb)))"
proof -
  have ret: "handle_rate_limit_error u' s
               = Inr (min (cb * (1 + uniform (- 0.2) 0.2 u')) mb, handle_result cb mb bf up s)"
    for u'
    by (rule handle_rate_limit_error_value [OF cb mb bf ua up])
  have lo: "- 0.2 \<le> uniform (- 0.2) 0.2 u" and hi: "uniform (- 0.2) 0.2 u \<le> 0.2"
    using uniform_bounds [of "- 0.2" "0.2" u] draw by simp_all
  have 1: "\<exists>s'. handle_rate_limit_error u s
                  = Inr (min (cb * (1 + uniform (- 0.2) 0.2 u)) mb, s') \<and>
               error_count s' = error_count s + 1 \<and>
               slept s' = slept s \<and>
               current_backoff s' = PNum (min (cb * bf) mb)"
    using ret [of u] by simp
  have 2: "0.8 \<le> 1 + uniform (- 0.2) 0.2 u" "1 + uniform (- 0.2) 0.2 u \<le> 1.2"
    using lo hi by simp_all
  have 3: "\<forall>u'. map_sum id (\<lambda>r. current_backoff (snd r)) (handle_rate_limit_error u' s)
                 = Inr (PNum (min (cb * bf) mb))"
    by (simp add: ret)
  show ?thesis using 1 2 3 by simp
qed

theorem handle_returns_jittered_backoff_witness:
  "num_of (current_backoff init_limiter) = Inr 5 \<and>
   cfg_num (config init_limiter) ''max_backoff'' = Inr 300 \<and>
   cfg_num (config init_limiter) ''backoff_factor'' = Inr 2 \<and>
   user_agents init_limiter \<noteq> [] \<and>
   config init_limiter ''use_proxies'' = Some (PBool False) \<and>
   (\<exists>s'. handle_rate_limit_error (3/4) init_limiter = Inr (11/2, s') \<and>
         error_count s' = 1 \<and> slept s' = [] \<and> current_backoff s' = PNum 10)"
proof -
  note f = init_handle_facts
  have ua: "user_agents init_limiter \<noteq> []"
    using f(7) by auto
  from handle_returns_jittered_backoff [OF f(1) f(2) f(3) ua f(5), of "3/4"]
  have "\<exists>s'. handle_rate_limit_error (3/4) init_limiter = Inr (11/2, s') \<and>
         error_count s' = 1 \<and> slept s' = [] \<and> current_backoff s' = PNum 10"
    by (simp add: uniform_def init_limiter_def)
  then show ?thesis using ua by (simp add: f)
qed

section \<open>Escalation of the stored backoff\<close>

text \<open>
  Claim C4. Let the configuration be valid (\<open>backoff_factor > 1\<close>,
  \<open>0 < initial_backoff \<le> max_backoff\<close>) and the stored backoff lie between
  \<open>initial_backoff\<close> and \<open>max_backoff\<close>, as it does after \<open>__init__\<close>, \<open>configure\<close> and
  \<open>reset_error_count\<close>. Then any number of consecutive calls of
  \<open>handle_rate_limit_error\<close> all return, and the stored backoff values \<open>cbs\<close> that
  \<open>get_backoff_time\<close> reads after each call form, together with the starting value, a
  non-decreasing sequence; each is \<open>min\<close> of its predecessor times \<open>backoff_factor\<close> and
  \<open>max_backoff\<close>, and each is at most \<open>max_backoff\<close>. From the initial state (5, factor 2,
  cap 300) seven calls store 10, 20, 40, 80, 160, 300, 300, whatever the draws.
\<close>

theorem backoff_escalation_monotone:
  assumes cb: "num_of (current_backoff s) = Inr cb"
    and ib: "cfg_num (config s) ''initial_backoff'' = Inr ib"
    and mb: "cfg_num (config s) ''max_backoff'' = Inr mb"
    and bf: "cfg_num (config s) ''backoff_factor'' = Inr bf"
    and ua: "user_agents s \<noteq> []"
    and up: "config s ''use_proxies'' = Some up"
    and valid: "1 < bf" "0 < ib" "ib \<le> mb"
    and inv: "ib \<le> cb" "cb \<le> mb"
  shows "(\<exists>ss cbs. handle_sequence us s = Inr ss \<and>
            map get_backoff_time ss = map PNum cbs \<and>
            length cbs = length us \<and>
            sorted (cb # cbs) \<and>
            (\<forall>x \<in> set cbs. x \<le> mb) \<and>
            (\<forall>i < length cbs. cbs ! i = min ((cb # cbs) ! i * bf) mb)) \<and>
         map_sum id (map get_backoff_time)
             (handle_sequence [u1, u2, u3, u4, u5, u6, u7] init_limiter)
           = Inr (map PNum [10, 20, 40, 80, 160, 300, 300])"
proof -
  have gen: "\<exists>ss cbs. handle_sequence us s = Inr ss \<and>
            map get_backoff_time ss = map PNum cbs \<and>
            length cbs = length us \<and>
            sorted (cb # cbs) \<and>
            (\<forall>x \<in> set cbs. x \<le> mb) \<and>
            (\<forall>i < length cbs. cbs ! i = min ((cb # cbs) ! i * bf) mb)"
    using cb ib mb bf ua up inv
  proof (induction us arbitrary: s cb)
    case Nil
    then show ?case by simp
  next
    case (Cons u us)
    let ?cb' = "min (cb * bf) mb"
    let ?s' = "handle_result cb mb bf up s"
    have n: "num_of (current_backoff s) = Inr cb"
      by (rule Cons.prems(1))
    have step: "handle_sequence (u # us) s =
           bind_result (handle_sequence us ?s') (\<lambda>ss. Inr (?s' # ss))"
      by (rule handle_sequence_Cons [OF n Cons.prems(3) Cons.prems(4) Cons.prems(5) Cons.prems(6)])
    have pos: "0 < cb" using valid(2) Cons.prems(7) by simp
    have "cb * 1 \<le> cb * bf"
      using pos valid(1) by (intro mult_left_mono) simp_all
    then have up1: "cb \<le> ?cb'" using Cons.prems(8) by simp
    have le: "?cb' \<le> mb" by simp
    have ib': "ib \<le> ?cb'" using up1 Cons.prems(7) by simp
    have "num_of (current_backoff ?s') = Inr ?cb'" by simp
    from Cons.IH [OF this _ _ _ _ _ ib' le] Cons.prems
    obtain ss cbs where ss: "handle_sequence us ?s' = Inr ss"
      and m: "map get_backoff_time ss = map PNum cbs"
      and l: "length cbs = length us"
      and so: "sorted (?cb' # cbs)"
      and bd: "\<forall>x \<in> set cbs. x \<le> mb"
      and rec: "\<forall>i < length cbs. cbs ! i = min ((?cb' # cbs) ! i * bf) mb"
      by auto
    have rec': "(?cb' # cbs) ! i = min ((cb # ?cb' # cbs) ! i * bf) mb"
      if "i < length (?cb' # cbs)" for i
      using that rec by (cases i) simp_all
    have "handle_sequence (u # us) s = Inr (?s' # ss)"
      using step ss by simp
    moreover have "map get_backoff_time (?s' # ss) = map PNum (?cb' # cbs)"
      using m by (simp add: get_backoff_time_def)
    moreover have "length (?cb' # cbs) = length (u # us)" using l by simp
    moreover have "sorted (cb # ?cb' # cbs)" using so up1 by auto
    moreover have "\<forall>x \<in> set (?cb' # cbs). x \<le> mb" using bd le by simp
    ultimately show ?case using rec' by blast
  qed
  have ex: "map_sum id (map get_backoff_time)
             (handle_sequence [u1, u2, u3, u4, u5, u6, u7] init_limiter)
           = Inr (map PNum [10, 20, 40, 80, 160, 300, 300])"
    by (simp add: handle_rate_limit_error_def Let_def rotate_user_agent_def cfg_defs
        get_backoff_time_def default_user_agents_def)
  show ?thesis using gen ex by simp
qed

theorem backoff_escalation_monotone_witness:
  "num_of (current_backoff init_limiter) = Inr 5 \<and>
   cfg_num (config init_limiter) ''initial_backoff'' = Inr 5 \<and>
   cfg_num (config init_limiter) ''max_backoff'' = Inr 300 \<and>
   cfg_num (config init_limiter) ''backoff_factor'' = Inr 2 \<and>
   user_agents init_limiter \<noteq> [] \<and>
   config init_limiter ''use_proxies'' = Some (PBool False) \<and>
   (\<exists>ss cbs. handle_sequence [0, 1/2, 1] init_limiter = Inr ss \<and>
      map get_backoff_time ss = map PNum cbs \<and> length cbs = 3 \<and> sorted (5 # cbs) \<and>
      (\<forall>x \<in> set cbs. x \<le> 300))"
proof -
  note f = init_handle_facts
  have ua: "user_agents init_limiter \<noteq> []"
    using f(7) by auto
  have "\<exists>ss cbs. handle_sequence [0, 1/2, 1] init_limiter = Inr ss \<and>
            map get_backoff_time ss = map PNum cbs \<and>
            length cbs = length [0, 1/2, 1 :: real] \<and>
            sorted (5 # cbs) \<and>
            (\<forall>x \<in> set cbs. x \<le> 300) \<and>
            (\<forall>i < length cbs. cbs ! i = min ((5 # cbs) ! i * 2) 300)"
    by (rule backoff_escalation_monotone [OF f(1) f(4) f(2) f(3) ua f(5), THEN conjunct1])
      simp_all
  then obtain ss cbs where
    1: "handle_sequence [0, 1/2, 1] init_limiter = Inr ss" and
    2: "map get_backoff_time ss = map PNum cbs" and
    3: "length cbs = length [0, 1/2, 1 :: real]" and
    4: "sorted (5 # cbs)" and
    5: "\<forall>x \<in> set cbs. x \<le> 300"
    by blast
  from 3 have len: "length cbs = 3" by simp
  from 1 2 len 4 5
  have "\<exists>ss cbs. handle_sequence [0, 1/2, 1] init_limiter = Inr ss \<and>
      map get_backoff_time ss = map PNum cbs \<and> length cbs = 3 \<and> sorted (5 # cbs) \<and>
      (\<forall>x \<in> set cbs. x \<le> 300)"
    by blast
  then show ?thesis using ua by (simp add: f)
qed

section \<open>Rotation of the identity\<close>

text \<open>
  Claim C7. A call of \<open>handle_rate_limit_error\<close> moves the user-agent index to the next
  position of the pool, cyclically, and keeps the pool. With more than one entry in the pool
  the index changes, and, the entries being pairwise different (as the ten entries of the
  pool of \<open>__init__\<close> are), so does the string that \<open>get_user_agent\<close> returns. After as many
  calls as the pool has entries the index is back at its starting position. The proxy index
  moves only when \<open>use_proxies\<close> is true and the proxy pool is non-empty.
\<close>

theorem handle_rotates_identity:
  assumes cb: "num_of (current_backoff s) = Inr cb"
    and mb: "cfg_num (config s) ''max_backoff'' = Inr mb"
    and bf: "cfg_num (config s) ''backoff_factor'' = Inr bf"
    and up: "config s ''use_proxies'' = Some up"
    and idx: "0 \<le> current_user_agent_idx s"
      "current_user_agent_idx s < int (length (user_agents s))"
  shows "(\<exists>b s'. handle_rate_limit_error u s = Inr (b, s') \<and>
            user_agents s' = user_agents s \<and>
            current_user_agent_idx s' =
              (current_user_agent_idx s + 1) mod int (length (user_agents s)) \<and>
            (1 < length (user_agents s) \<longrightarrow>
               current_user_agent_idx s' \<noteq> current_user_agent_idx s) \<and>
            (1 < length (user_agents s) \<and> distinct (user_agents s) \<longrightarrow>
               get_user_agent s' \<noteq> get_user_agent s) \<and>
            current_proxy_idx s' =
              (if truthy up \<and> proxies s \<noteq> []
               then (current_proxy_idx s + 1) mod int (length (proxies s))
               else current_proxy_idx s)) \<and>
         (length us = length (user_agents s) \<longrightarrow>
            (\<exists>ss. handle_sequence us s = Inr ss \<and> length ss = length us \<and>
                  current_user_agent_idx (last ss) = current_user_agent_idx s)) \<and>
         distinct (user_agents init_limiter) \<and> length (user_agents init_limiter) = 10"
proof -
  let ?n = "int (length (user_agents s))"
  let ?i = "current_user_agent_idx s"
  let ?s' = "handle_result cb mb bf up s"
  have ua: "user_agents s \<noteq> []" using idx by auto
  have ret: "handle_rate_limit_error u s
               = Inr (min (cb * (1 + uniform (- 0.2) 0.2 u)) mb, ?s')"
    by (rule handle_rate_limit_error_value [OF cb mb bf ua up])
  have i': "current_user_agent_idx ?s' = (?i + 1) mod ?n" by simp
  have npos: "0 < ?n" using idx by linarith
  have range': "0 \<le> (?i + 1) mod ?n" "(?i + 1) mod ?n < ?n"
    using npos by (rule pos_mod_sign, rule pos_mod_bound)
  have neq: "(?i + 1) mod ?n \<noteq> ?i" if "1 < length (user_agents s)"
  proof (cases "?i + 1 < ?n")
    case True
    then show ?thesis using idx by simp
  next
    case False
    with idx have "?i + 1 = ?n" by simp
    then have "(?i + 1) mod ?n = 0" by simp
    moreover have "?i \<noteq> 0" using \<open>?i + 1 = ?n\<close> that by simp
    ultimately show ?thesis by simp
  qed
  have val: "get_user_agent ?s' \<noteq> get_user_agent s"
    if "1 < length (user_agents s)" "distinct (user_agents s)"
  proof -
    have a: "get_user_agent s = Inr (user_agents s ! nat ?i)"
      using idx by (simp add: get_user_agent_def py_index_in_range)
    have b: "get_user_agent ?s' = Inr (user_agents s ! nat ((?i + 1) mod ?n))"
      using range' by (simp add: get_user_agent_def py_index_in_range)
    have "nat ((?i + 1) mod ?n) \<noteq> nat ?i"
      using neq [OF that(1)] range' idx by simp
    moreover have "nat ((?i + 1) mod ?n) < length (user_agents s)" "nat ?i < length (user_agents s)"
      using range' idx by simp_all
    ultimately have "user_agents s ! nat ((?i + 1) mod ?n) \<noteq> user_agents s ! nat ?i"
      using that(2) by (simp add: nth_eq_iff_index_eq)
    then show ?thesis using a b by simp
  qed
  have px: "current_proxy_idx ?s' =
              (if truthy up \<and> proxies s \<noteq> []
               then (current_proxy_idx s + 1) mod int (length (proxies s))
               else current_proxy_idx s)"
    by (simp add: handle_result_def rotate_proxy_def)
  have one: "\<exists>b s'. handle_rate_limit_error u s = Inr (b, s') \<and>
            user_agents s' = user_agents s \<and>
            current_user_agent_idx s' = (?i + 1) mod ?n \<and>
            (1 < length (user_agents s) \<longrightarrow> current_user_agent_idx s' \<noteq> ?i) \<and>
            (1 < length (user_agents s) \<and> distinct (user_agents s) \<longrightarrow>
               get_user_agent s' \<noteq> get_user_agent s) \<and>
            current_proxy_idx s' =
              (if truthy up \<and> proxies s \<noteq> []
               then (current_proxy_idx s + 1) mod int (length (proxies s))
               else current_proxy_idx s)"
    apply (rule exI [of _ "min (cb * (1 + uniform (- 0.2) 0.2 u)) mb"])
    apply (rule exI [of _ ?s'])
    using ret i' neq val px by simp
  have cyc: "\<exists>ss. handle_sequence us s = Inr ss \<and> length ss = length us \<and>
                  current_user_agent_idx (last ss) = ?i"
    if len: "length us = length (user_agents s)"
  proof -
    from handle_sequence_states [OF cb mb bf ua up, of us]
    obtain ss where ss: "handle_sequence us s = Inr ss" "length ss = length us"
      and at: "\<forall>i < length ss. current_user_agent_idx (ss ! i) = (?i + int i + 1) mod ?n"
      by blast
    have ne: "ss \<noteq> []" using ss(2) len ua by auto
    then have "last ss = ss ! (length ss - 1)" by (rule last_conv_nth)
    moreover have "length ss - 1 < length ss" using ne by simp
    ultimately have "current_user_agent_idx (last ss) = (?i + int (length ss - 1) + 1) mod ?n"
      using at by simp
    also have "?i + int (length ss - 1) + 1 = ?i + ?n"
    proof -
      have "0 < length ss" using ne by simp
      then have "int (length ss - 1) + 1 = int (length ss)" by linarith
      then show ?thesis using ss(2) len by simp
    qed
    also have "(?i + ?n) mod ?n = ?i" using idx by simp
    finally show ?thesis using ss by blast
  qed
  have pool: "distinct (user_agents init_limiter) \<and> length (user_agents init_limiter) = 10"
    by (simp add: init_limiter_def distinct_default_user_agents) (simp add: default_user_agents_def)
  show ?thesis using one cyc pool by blast
qed

theorem handle_rotates_identity_witness:
  "num_of (current_backoff init_limiter) = Inr 5 \<and>
   cfg_num (config init_limiter) ''max_backoff'' = Inr 300 \<and>
   cfg_num (config init_limiter) ''backoff_factor'' = Inr 2 \<and>
   config init_limiter ''use_proxies'' = Some (PBool False) \<and>
   0 \<le> current_user_agent_idx init_limiter \<and>
   current_user_agent_idx init_limiter < int (length (user_agents init_limiter)) \<and>
   (\<exists>b s'. handle_rate_limit_error (1/2) init_limiter = Inr (b, s') \<and>
           current_user_agent_idx s' = 1 \<and>
           get_user_agent s' \<noteq> get_user_agent init_limiter) \<and>
   (\<exists>ss. handle_sequence (replicate 10 (1/2)) init_limiter = Inr ss \<and>
         current_user_agent_idx (last ss) = 0)"
proof -
  note f = init_handle_facts
  have i0: "0 \<le> current_user_agent_idx init_limiter"
    and i1: "current_user_agent_idx init_limiter < int (length (user_agents init_limiter))"
    by (simp_all add: f)
  from handle_rotates_identity [OF f(1) f(2) f(3) f(5) i0 i1, of "1/2" "replicate 10 (1/2)"]
  have "(\<exists>b s'. handle_rate_limit_error (1/2) init_limiter = Inr (b, s') \<and>
           current_user_agent_idx s' = 1 \<and>
           get_user_agent s' \<noteq> get_user_agent init_limiter) \<and>
   (\<exists>ss. handle_sequence (replicate 10 (1/2)) init_limiter = Inr ss \<and>
         current_user_agent_idx (last ss) = 0)"
    by (simp add: f) blast
  then show ?thesis using i0 i1 by (simp add: f)
qed

section \<open>configure\<close>

text \<open>
  Claim C5 as stated: the recognized keys are the seven tunables \<open>min_delay\<close>,
  \<open>max_delay\<close>, \<open>rpm_limit\<close>, \<open>initial_backoff\<close>, \<open>max_backoff\<close>, \<open>backoff_factor\<close> and
  \<open>use_proxies\<close>, and every other key is ignored. The code tests \<open>key in self.config\<close>, and
  the dict of \<open>__init__\<close> also holds \<open>browser\<close> and \<open>headless\<close>: \<open>configure(browser="firefox")\<close>
  overwrites the entry \<open>browser\<close>, which a \<open>configure\<close> that recognizes the seven tunables
  only would leave at \<open>chrome\<close>.
\<close>

theorem configure_recognizes_seven_counterexample:
  "map_sum id (\<lambda>s. config s ''browser'')
      (configure [(''browser'', PStr ''firefox'')] init_limiter) = Inr (Some (PStr ''firefox'')) \<and>
   map_sum id (\<lambda>s. config s ''browser'')
      (spec_configure [(''browser'', PStr ''firefox'')] init_limiter) = Inr (Some (PStr ''chrome''))"
  by (simp add: configure_def spec_configure_def configure_key_def spec_configure_key_def
      spec_tunables_def cfg_defs)


text \<open>
  Claim C5, amended. For every call of \<open>configure\<close> (the keys of the keyword dict are
  distinct) on a state whose dict holds \<open>initial_backoff\<close>: exactly the supplied keys that
  the config dict holds are overwritten with the supplied values, supplied keys that the
  dict does not hold are ignored and not added, every entry not supplied keeps its value,
  \<open>current_backoff\<close> becomes the \<open>initial_backoff\<close> of the new dict and \<open>error_count\<close>
  becomes 0, whatever keys are supplied; no other field changes. The keys that the dict of
  \<open>__init__\<close> holds are the seven tunables together with \<open>browser\<close> and \<open>headless\<close>.
\<close>

theorem configure_overwrites_held_keys:
  assumes keys: "distinct (map fst kwargs)"
    and ib: "config s ''initial_backoff'' \<noteq> None"
  shows "(\<exists>s'. configure kwargs s = Inr s' \<and>
            (\<forall>k. config s' k =
                  (if config s k \<noteq> None
                   then (case map_of kwargs k of Some v \<Rightarrow> Some v | None \<Rightarrow> config s k)
                   else None)) \<and>
            config s' ''initial_backoff'' = Some (current_backoff s') \<and>
            error_count s' = 0 \<and>
            last_request_time s' = last_request_time s \<and>
            request_times s' = request_times s \<and>
            user_agents s' = user_agents s \<and>
            current_user_agent_idx s' = current_user_agent_idx s \<and>
            proxies s' = proxies s \<and>
            current_proxy_idx s' = current_proxy_idx s \<and>
            slept s' = slept s) \<and>
         dom (config init_limiter) =
           {''min_delay'', ''max_delay'', ''rpm_limit'', ''browser'', ''headless'', ''use_proxies'',
              ''initial_backoff'', ''max_backoff'', ''backoff_factor''}"
proof -
  let ?c = "fold configure_key kwargs (config s)"
  have "?c ''initial_backoff'' \<noteq> None" using ib by simp
  then obtain b where b: "?c ''initial_backoff'' = Some b" by blast
  let ?s' = "s\<lparr>config := ?c, current_backoff := b, error_count := 0\<rparr>"
  have ret: "configure kwargs s = Inr ?s'"
    using b by (simp add: configure_def Let_def cfg_get_def)
  have val: "\<forall>k. config ?s' k =
                  (if config s k \<noteq> None
                   then (case map_of kwargs k of Some v \<Rightarrow> Some v | None \<Rightarrow> config s k)
                   else None)"
    using fold_configure_key_value [OF keys, of "config s"] by simp
  have one: "\<exists>s'. configure kwargs s = Inr s' \<and>
            (\<forall>k. config s' k =
                  (if config s k \<noteq> None
                   then (case map_of kwargs k of Some v \<Rightarrow> Some v | None \<Rightarrow> config s k)
                   else None)) \<and>
            config s' ''initial_backoff'' = Some (current_backoff s') \<and>
            error_count s' = 0 \<and>
            last_request_time s' = last_request_time s \<and>
            request_times s' = request_times s \<and>
            user_agents s' = user_agents s \<and>
            current_user_agent_idx s' = current_user_agent_idx s \<and>
            proxies s' = proxies s \<and>
            current_proxy_idx s' = current_proxy_idx s \<and>
            slept s' = slept s"
    apply (rule exI [of _ ?s'])
    using ret val b by simp
  have keys9: "dom (config init_limiter) =
           {''min_delay'', ''max_delay'', ''rpm_limit'', ''browser'', ''headless'', ''use_proxies'',
              ''initial_backoff'', ''max_backoff'', ''backoff_factor''}"
    unfolding init_limiter_def default_config_def
    by (simp add: dom_map_of_conv_image_fst)
  show ?thesis using one keys9 by blast
qed

theorem configure_overwrites_held_keys_witness:
  "distinct (map fst [(''rpm_limit'', PNum 5), (''initial_backoff'', PNum 7), (''bogus'', PNum 1)]) \<and>
   config init_limiter ''initial_backoff'' \<noteq> None \<and>
   (\<exists>s'. configure [(''rpm_limit'', PNum 5), (''initial_backoff'', PNum 7), (''bogus'', PNum 1)]
            init_limiter = Inr s' \<and>
         config s' ''rpm_limit'' = Some (PNum 5) \<and>
         config s' ''min_delay'' = Some (PNum 1) \<and>
         config s' ''bogus'' = None \<and>
         current_backoff s' = PNum 7 \<and>
         error_count s' = 0)"
proof -
  let ?kw = "[(''rpm_limit'', PNum 5), (''initial_backoff'', PNum 7), (''bogus'', PNum 1)]"
  have d: "distinct (map fst ?kw)" by simp
  have ib: "config init_limiter ''initial_backoff'' \<noteq> None"
    by (simp add: cfg_defs)
  from configure_overwrites_held_keys [OF d ib, THEN conjunct1]
  obtain s' where ret: "configure ?kw init_limiter = Inr s'"
    and val: "\<forall>k. config s' k =
                  (if config init_limiter k \<noteq> None
                   then (case map_of ?kw k of Some v \<Rightarrow> Some v | None \<Rightarrow> config init_limiter k)
                   else None)"
    and cb: "config s' ''initial_backoff'' = Some (current_backoff s')"
    and ec: "error_count s' = 0"
    by blast
  have 1: "config s' ''rpm_limit'' = Some (PNum 5)"
    using val [rule_format, of "''rpm_limit''"] by (simp add: cfg_defs)
  have 2: "config s' ''min_delay'' = Some (PNum 1)"
    using val [rule_format, of "''min_delay''"] by (simp add: cfg_defs)
  have 3: "config s' ''bogus'' = None"
    using val [rule_format, of "''bogus''"] by (simp add: cfg_defs)
  have 4: "current_backoff s' = PNum 7"
    using val [rule_format, of "''initial_backoff''"] cb by (simp add: cfg_defs)
  show ?thesis using d ib ret 1 2 3 4 ec by blast
qed

section \<open>The request log\<close>

text \<open>
  Claim C6. Starting from a log of at most 60 entries (the deque is created empty with
  \<open>maxlen=60\<close>), after any sequence of \<open>record_request\<close> calls the log holds the last 60 of
  all the timestamps recorded, in order, the oldest having been dropped first; so it never
  holds more than 60 entries, and one more call on a full log drops its head.
  \<open>get_request_stats\<close> at clock reading \<open>now\<close> reports as \<open>requests_last_minute\<close> the number
  of stored timestamps \<open>t\<close> with \<open>t > now - 60\<close>, and it returns whenever the config dict
  holds \<open>rpm_limit\<close>.
\<close>

theorem request_log_bounded_and_counted:
  assumes "length (request_times s) \<le> 60"
  shows "request_times (record_requests ts s)
           = drop (length (request_times s @ ts) - 60) (request_times s @ ts) \<and>
         length (request_times (record_requests ts s)) \<le> 60 \<and>
         (length (request_times s) = 60 \<longrightarrow>
            request_times (record_request t s) = tl (request_times s) @ [t]) \<and>
         (\<forall>st. get_request_stats now (record_requests ts s) = Inr st \<longrightarrow>
            requests_last_minute st
              = length (filter (\<lambda>t. now - 60 < t) (request_times (record_requests ts s)))) \<and>
         (config s ''rpm_limit'' \<noteq> None \<longrightarrow>
            (\<exists>st. get_request_stats now (record_requests ts s) = Inr st))"
proof -
  have log: "request_times (record_requests ts s)
           = drop (length (request_times s @ ts) - 60) (request_times s @ ts)"
    by (rule record_requests_log [OF assms])
  have len: "length (request_times (record_requests ts s)) \<le> 60"
    unfolding log by simp
  have full: "request_times (record_request t s) = tl (request_times s) @ [t]"
    if "length (request_times s) = 60"
    using that by (simp add: record_request_def deque_append_full)
  have cnt: "\<forall>st. get_request_stats now (record_requests ts s) = Inr st \<longrightarrow>
            requests_last_minute st
              = length (filter (\<lambda>t. now - 60 < t) (request_times (record_requests ts s)))"
    by (auto simp: get_request_stats_def Let_def bind_result_eq_Inr recent_requests_def)
  have ret: "\<exists>st. get_request_stats now (record_requests ts s) = Inr st"
    if "config s ''rpm_limit'' \<noteq> None"
    using that by (auto simp: get_request_stats_def Let_def cfg_get_def)
  show ?thesis using log len full cnt ret by blast
qed

theorem request_log_bounded_and_counted_witness:
  "length (request_times init_limiter) \<le> 60 \<and>
   request_times (record_requests [10, 50, 100] init_limiter) = [10, 50, 100] \<and>
   map_sum id requests_last_minute
     (get_request_stats 105 (record_requests [10, 50, 100] init_limiter)) = Inr 2"
proof -
  have h: "length (request_times init_limiter) \<le> 60"
    by (simp add: init_limiter_def)
  have e: "request_times init_limiter = []"
    by (simp add: init_limiter_def)
  have c: "config init_limiter ''rpm_limit'' \<noteq> None"
    by (simp add: cfg_defs)
  note t = request_log_bounded_and_counted [OF h, of "[10, 50, 100]" 0 105]
  from t have log: "request_times (record_requests [10, 50, 100] init_limiter) = [10, 50, 100]"
    by (simp add: e)
  from t c obtain st where st: "get_request_stats 105 (record_requests [10, 50, 100] init_limiter) = Inr st"
    by blast
  with t have "requests_last_minute st
     = length (filter (\<lambda>t. 105 - 60 < t) (request_times (record_requests [10, 50, 100] init_limiter)))"
    by blast
  then have "requests_last_minute st = 2"
    unfolding log by simp
  with h log st show ?thesis by simp
qed

section \<open>The rotation indices\<close>

text \<open>
  Claim C10. \<open>index_invariant\<close> says that the user-agent index is a position of the
  user-agent pool and that, when the proxy pool is non-empty, the proxy index is a position
  of the proxy pool. It holds after \<open>__init__\<close> and every operation that returns preserves
  it: \<open>record_request\<close>, \<open>configure\<close>, \<open>wait_if_needed\<close>, \<open>handle_rate_limit_error\<close>,
  \<open>reset_error_count\<close> and the two rotations. Under it \<open>get_user_agent\<close> returns the pool
  entry at the index and never raises \<open>IndexError\<close>, and so does \<open>get_proxy\<close> when proxies
  are in use. Rotating with an empty proxy pool changes nothing, and \<open>get_proxy\<close> returns
  \<open>None\<close> whenever \<open>use_proxies\<close> is false or the proxy pool is empty.
\<close>

theorem indices_stay_in_range:
  "index_invariant init_limiter \<and>
   (index_invariant s \<longrightarrow>
      index_invariant (record_request now s) \<and>
      index_invariant (rotate_proxy s) \<and>
      (\<forall>s'. configure kwargs s = Inr s' \<longrightarrow> index_invariant s') \<and>
      (\<forall>s'. wait_if_needed t0 r u t1 s = Inr s' \<longrightarrow> index_invariant s') \<and>
      (\<forall>b s'. handle_rate_limit_error u s = Inr (b, s') \<longrightarrow> index_invariant s') \<and>
      (\<forall>s'. reset_error_count s = Inr s' \<longrightarrow> index_invariant s') \<and>
      (\<forall>s'. rotate_user_agent s = Inr s' \<longrightarrow> index_invariant s') \<and>
      get_user_agent s = Inr (user_agents s ! nat (current_user_agent_idx s)) \<and>
      (\<forall>v. config s ''use_proxies'' = Some v \<and> truthy v \<and> proxies s \<noteq> [] \<longrightarrow>
           get_proxy s = Inr (Some (proxies s ! nat (current_proxy_idx s))))) \<and>
   (proxies s = [] \<longrightarrow> rotate_proxy s = s) \<and>
   (\<forall>v. config s ''use_proxies'' = Some v \<and> (\<not> truthy v \<or> proxies s = []) \<longrightarrow>
        get_proxy s = Inr None)"
proof -
  have init: "index_invariant init_limiter"
    by (simp add: index_invariant_def init_limiter_def default_user_agents_def)
  have empty: "proxies s = [] \<longrightarrow> rotate_proxy s = s"
    by (simp add: rotate_proxy_def)
  have none: "\<forall>v. config s ''use_proxies'' = Some v \<and> (\<not> truthy v \<or> proxies s = []) \<longrightarrow>
        get_proxy s = Inr None"
    by (auto simp: get_proxy_def cfg_get_def)
  have pres: "index_invariant (record_request now s) \<and>
      index_invariant (rotate_proxy s) \<and>
      (\<forall>s'. configure kwargs s = Inr s' \<longrightarrow> index_invariant s') \<and>
      (\<forall>s'. wait_if_needed t0 r u t1 s = Inr s' \<longrightarrow> index_invariant s') \<and>
      (\<forall>b s'. handle_rate_limit_error u s = Inr (b, s') \<longrightarrow> index_invariant s') \<and>
      (\<forall>s'. reset_error_count s = Inr s' \<longrightarrow> index_invariant s') \<and>
      (\<forall>s'. rotate_user_agent s = Inr s' \<longrightarrow> index_invariant s') \<and>
      get_user_agent s = Inr (user_agents s ! nat (current_user_agent_idx s)) \<and>
      (\<forall>v. config s ''use_proxies'' = Some v \<and> truthy v \<and> proxies s \<noteq> [] \<longrightarrow>
           get_proxy s = Inr (Some (proxies s ! nat (current_proxy_idx s))))"
    if inv: "index_invariant s"
  proof -
    have 1: "index_invariant (record_request now s)"
      by (rule index_invariant_frame [OF inv]) (simp_all add: record_request_def)
    have 2: "index_invariant (rotate_proxy s)"
      by (rule index_invariant_rotate_proxy [OF inv])
    have 3: "index_invariant s'" if "configure kwargs s = Inr s'" for s'
      using that
      by (intro index_invariant_frame [OF inv])
        (auto simp: configure_def Let_def bind_result_eq_Inr)
    have 4: "index_invariant s'" if "wait_if_needed t0 r u t1 s = Inr s'" for s'
      using that
      by (intro index_invariant_frame [OF inv]) (auto simp: wait_if_needed_eq_Inr)
    have 5: "index_invariant s'" if h: "handle_rate_limit_error u s = Inr (b, s')" for b s'
    proof -
      from handle_rate_limit_error_Inr [OF h] obtain cb mb bf up where
        "num_of (current_backoff s) = Inr cb" "cfg_num (config s) ''max_backoff'' = Inr mb"
        "cfg_num (config s) ''backoff_factor'' = Inr bf" "user_agents s \<noteq> []"
        "config s ''use_proxies'' = Some up" by blast
      from handle_rate_limit_error_value [OF this, of u] h
      have "s' = handle_result cb mb bf up s" by simp
      then show ?thesis by (simp add: index_invariant_handle_result [OF inv])
    qed
    have 6: "index_invariant s'" if "reset_error_count s = Inr s'" for s'
      using that
      by (intro index_invariant_frame [OF inv])
        (auto simp: reset_error_count_def bind_result_eq_Inr split: if_splits)
    have 7: "index_invariant s'" if "rotate_user_agent s = Inr s'" for s'
      using that by (rule index_invariant_rotate_user_agent [OF inv])
    have 8: "get_user_agent s = Inr (user_agents s ! nat (current_user_agent_idx s))"
      using inv by (simp add: get_user_agent_def index_invariant_def py_index_in_range)
    have 9: "get_proxy s = Inr (Some (proxies s ! nat (current_proxy_idx s)))"
      if "config s ''use_proxies'' = Some v" "truthy v" "proxies s \<noteq> []" for v
      using that inv by (simp add: get_proxy_def cfg_get_def index_invariant_def py_index_in_range)
    show ?thesis using 1 2 3 4 5 6 7 8 9 by blast
  qed
  show ?thesis using init empty none pres by blast
qed

theorem indices_stay_in_range_witness:
  "index_invariant init_limiter \<and>
   get_user_agent init_limiter = Inr (user_agents init_limiter ! nat 0) \<and>
   index_invariant (record_request 5 init_limiter) \<and>
   proxies init_limiter = [] \<and>
   rotate_proxy init_limiter = init_limiter \<and>
   config init_limiter ''use_proxies'' = Some (PBool False) \<and>
   get_proxy init_limiter = Inr None"
proof -
  note t = indices_stay_in_range [where s = init_limiter and now = 5]
  have inv: "index_invariant init_limiter" using t by blast
  have p: "proxies init_limiter = []" by (simp add: init_limiter_def)
  have c: "config init_limiter ''use_proxies'' = Some (PBool False)" by (simp add: cfg_defs)
  have i: "current_user_agent_idx init_limiter = 0" by (simp add: init_limiter_def)
  have 1: "get_user_agent init_limiter = Inr (user_agents init_limiter ! nat 0)"
    using t inv i by simp
  have 2: "index_invariant (record_request 5 init_limiter)" using t inv by blast
  have 3: "rotate_proxy init_limiter = init_limiter" using t p by blast
  have 4: "get_proxy init_limiter = Inr None" using t c by auto
  show ?thesis using inv 1 2 p 3 c 4 by blast
qed

end
